theory Spec2Isabelle
  imports Main "HOL-Library.Word" "HOL-Library.Signed_Division"
begin

unbundle bit_operations_syntax

section \<open>ESP32IMDB: data model (ESP32IMDB.h)\<close>

text \<open>
  The store is embedded shallowly.  Machine integers are words: \<open>uint8_t\<close>, \<open>uint16_t\<close>,
  \<open>uint32_t\<close> and \<open>int32_t\<close> (a signed value is read through \<open>sint\<close>).  A \<open>float\<close> is its
  32-bit pattern; the arithmetic and the comparisons of the FPU are parameters of the
  model (record \<open>env\<close>), so every result holds for whatever they compute.  C strings are
  \<open>string\<close>s read up to their first NUL.  Record and column counts are \<open>nat\<close>: the source
  keeps them in an \<open>int\<close> that never goes negative and that \<open>growRecordArray\<close> keeps below
  \<open>INT_MAX\<close>.
\<close>

type_synonym uint8_t = "8 word"
type_synonym uint16_t = "16 word"
type_synonym uint32_t = "32 word"
type_synonym int32_t = "32 word"
type_synonym float = "32 word"

definition IMDB_MIN_HEAP_BYTES :: nat where
  "IMDB_MIN_HEAP_BYTES = 30000"

definition IMDB_MAX_STRING_LENGTH :: nat where
  "IMDB_MAX_STRING_LENGTH = 255"

definition IMDB_MAX_TTL_MS :: nat where
  "IMDB_MAX_TTL_MS = 30 * 24 * 60 * 60 * 1000"

definition INT_MAX :: nat where
  "INT_MAX = 2147483647"

text \<open>
  \<open>IMDB_TYPE_OUT_OF_RANGE\<close> stands for an enum object holding a byte that names none of the
  six types; only \<open>loadFromFile\<close> can produce it, by casting a byte of the file.
\<close>

datatype IMDBDataType =
    IMDB_TYPE_INT32
  | IMDB_TYPE_MAC
  | IMDB_TYPE_STRING
  | IMDB_TYPE_EPOCH
  | IMDB_TYPE_BOOL
  | IMDB_TYPE_FLOAT
  | IMDB_TYPE_OUT_OF_RANGE uint8_t

datatype IMDBResult =
    IMDB_OK
  | IMDB_ERROR_OUT_OF_MEMORY
  | IMDB_ERROR_HEAP_LIMIT
  | IMDB_ERROR_TABLE_EXISTS
  | IMDB_ERROR_NO_TABLE
  | IMDB_ERROR_INVALID_TYPE
  | IMDB_ERROR_INVALID_VALUE
  | IMDB_ERROR_COLUMN_COUNT_MISMATCH
  | IMDB_ERROR_COLUMN_NOT_FOUND
  | IMDB_ERROR_INVALID_OPERATION
  | IMDB_ERROR_NO_RECORDS
  | IMDB_ERROR_INVALID_MAC_FORMAT
  | IMDB_ERROR_FILE_OPEN
  | IMDB_ERROR_FILE_WRITE
  | IMDB_ERROR_FILE_READ
  | IMDB_ERROR_CORRUPT_FILE

datatype IMDBOperator =
    IMDB_OP_EQUAL
  | IMDB_OP_NOT_EQUAL
  | IMDB_OP_GREATER
  | IMDB_OP_LESS
  | IMDB_OP_GREATER_EQUAL
  | IMDB_OP_LESS_EQUAL

datatype IMDBMathOp =
    IMDB_MATH_ADD
  | IMDB_MATH_SUBTRACT
  | IMDB_MATH_MULTIPLY
  | IMDB_MATH_DIVIDE
  | IMDB_MATH_MODULO

text \<open>
  \<open>struct IMDBColumn\<close>: \<open>name\<close> is the \<open>char[32]\<close> array, \<open>type\<close> the data type.  A list of
  fewer than 32 characters stands for the array that holds them and NUL in every
  element after them, which is what \<open>{"id", IMDB_TYPE_INT32}\<close> initialises.
\<close>

record IMDBColumn =
  name :: string
  type :: IMDBDataType

datatype mac = Mac uint8_t uint8_t uint8_t uint8_t uint8_t uint8_t

text \<open>
  \<open>union IMDBFieldValue\<close>, as the member that was last written.  \<open>StringValue None\<close> is the
  null \<open>char*\<close>, \<open>StringValue (Some s)\<close> a pointer to an owned buffer holding \<open>s\<close> and its
  terminator.  The source never reads a member other than the one the column type
  names; the accessors below are total all the same: the three 32-bit members share
  their storage, every other mismatch reads as zero.
\<close>

datatype IMDBFieldValue =
    Int32Value int32_t
  | MacAddress mac
  | StringValue "string option"
  | EpochValue uint32_t
  | BoolValue bool
  | FloatValue float

fun get_int32Value :: "IMDBFieldValue \<Rightarrow> int32_t" where
  "get_int32Value (Int32Value w) = w"
| "get_int32Value (EpochValue w) = w"
| "get_int32Value (FloatValue w) = w"
| "get_int32Value _ = 0"

fun get_epochValue :: "IMDBFieldValue \<Rightarrow> uint32_t" where
  "get_epochValue (EpochValue w) = w"
| "get_epochValue (Int32Value w) = w"
| "get_epochValue (FloatValue w) = w"
| "get_epochValue _ = 0"

fun get_floatValue :: "IMDBFieldValue \<Rightarrow> float" where
  "get_floatValue (FloatValue w) = w"
| "get_floatValue (Int32Value w) = w"
| "get_floatValue (EpochValue w) = w"
| "get_floatValue _ = 0"

fun get_macAddress :: "IMDBFieldValue \<Rightarrow> mac" where
  "get_macAddress (MacAddress m) = m"
| "get_macAddress _ = Mac 0 0 0 0 0 0"

fun get_stringValue :: "IMDBFieldValue \<Rightarrow> string option" where
  "get_stringValue (StringValue p) = p"
| "get_stringValue _ = None"

fun get_boolValue :: "IMDBFieldValue \<Rightarrow> bool" where
  "get_boolValue (BoolValue b) = b"
| "get_boolValue _ = False"

text \<open>
  \<open>struct IMDBRecord\<close>.  \<open>rfields\<close> is the member \<open>fields\<close>: \<open>None\<close> is the null pointer,
  \<open>Some fs\<close> a pointer to the array \<open>fs\<close>.
\<close>

record IMDBRecord =
  rfields :: "IMDBFieldValue list option"
  expiryMillis :: uint32_t
  isValid :: bool

text \<open>\<open>struct IMDBSelectResult\<close>; \<open>resultType\<close> is its member \<open>type\<close>.\<close>

record IMDBSelectResult =
  int32Value :: int32_t
  macAddress :: mac
  stringValue :: string
  epochValue :: uint32_t
  boolValue :: bool
  floatValue :: float
  resultType :: IMDBDataType
  hasValue :: bool

text \<open>
  The heap is followed by a ledger: \<open>mallocCalls\<close> counts the allocation requests made so
  far (\<open>malloc\<close> and \<open>realloc\<close>), \<open>liveBlocks\<close> the blocks allocated and not yet freed.
\<close>

record Heap =
  mallocCalls :: nat
  liveBlocks :: nat

text \<open>
  The private members of \<open>class ESP32IMDB\<close> and the heap ledger.  \<open>columns = None\<close> is
  \<open>_columns == nullptr\<close>.  \<open>records\<close> is the array \<open>_records\<close> points to, all
  \<open>_recordCapacity\<close> slots of it, and \<open>[]\<close> when \<open>_records\<close> is null; only the first
  \<open>recordCount\<close> slots hold records.  The mutex is left out: every public operation
  runs from \<open>lock()\<close> to \<open>unlock()\<close>, which is what one call of a function of the model is.
\<close>

record ESP32IMDB =
  columns :: "IMDBColumn list option"
  columnCount :: uint8_t
  records :: "IMDBRecord list"
  recordCount :: nat
  recordCapacity :: nat
  tableExists :: bool
  heap :: Heap

text \<open>
  What a call takes from the device: \<open>millis\<close> is the value \<open>millis()\<close> returns during a
  call that examines every record once (one reading for the whole call; \<open>selectAll\<close> and
  \<open>top\<close>, which examine the records twice, and \<open>saveToFile\<close>, which stamps the file
  after its purge, take the readings of the clock one by one instead, see
  \<open>isRecordExpired_at\<close>), \<open>getFreeHeap k\<close> what \<open>ESP.getFreeHeap()\<close>
  returns after \<open>k\<close> allocation requests, \<open>mallocOk k\<close> whether request number \<open>k\<close> is
  granted, the \<open>float\<close> members the FPU, and the \<open>uninit\<close> members the contents of memory
  that \<open>malloc\<close> returns.
\<close>

record env =
  millis :: uint32_t
  getFreeHeap :: "nat \<Rightarrow> nat"
  mallocOk :: "nat \<Rightarrow> bool"
  floatEq :: "float \<Rightarrow> float \<Rightarrow> bool"
  floatLt :: "float \<Rightarrow> float \<Rightarrow> bool"
  floatLe :: "float \<Rightarrow> float \<Rightarrow> bool"
  floatAdd :: "float \<Rightarrow> float \<Rightarrow> float"
  floatSub :: "float \<Rightarrow> float \<Rightarrow> float"
  floatMul :: "float \<Rightarrow> float \<Rightarrow> float"
  floatDiv :: "float \<Rightarrow> float \<Rightarrow> float"
  floatOfInt :: "int32_t \<Rightarrow> float"
  intOfFloat :: "float \<Rightarrow> int32_t"
  uninitRecord :: IMDBRecord
  uninitField :: IMDBFieldValue
  uninitResult :: IMDBSelectResult

section \<open>Heap and string primitives\<close>

definition malloc :: "env \<Rightarrow> Heap \<Rightarrow> bool \<times> Heap" where
  "malloc e h =
     (if mallocOk e (mallocCalls h)
      then (True, \<lparr>mallocCalls = mallocCalls h + 1, liveBlocks = liveBlocks h + 1\<rparr>)
      else (False, \<lparr>mallocCalls = mallocCalls h + 1, liveBlocks = liveBlocks h\<rparr>))"

definition free :: "Heap \<Rightarrow> Heap" where
  "free h = h\<lparr>liveBlocks := liveBlocks h - 1\<rparr>"

text \<open>\<open>realloc\<close>: one request; when granted the old block is replaced by the new one.\<close>

definition realloc :: "env \<Rightarrow> Heap \<Rightarrow> bool \<times> Heap" where
  "realloc e h = (mallocOk e (mallocCalls h), h\<lparr>mallocCalls := mallocCalls h + 1\<rparr>)"

definition checkHeapLimit :: "env \<Rightarrow> Heap \<Rightarrow> bool" where
  "checkHeapLimit e h = (getFreeHeap e (mallocCalls h) \<ge> IMDB_MIN_HEAP_BYTES)"

text \<open>The characters of a C string: those before the first NUL.\<close>

definition c_str :: "string \<Rightarrow> string" where
  "c_str s = takeWhile (\<lambda>c. c \<noteq> CHR 0x00) s"

definition strlen :: "string \<Rightarrow> nat" where
  "strlen s = length (c_str s)"

text \<open>\<open>strcmp(a, b) == 0\<close>.\<close>

definition strcmp_eq :: "string \<Rightarrow> string \<Rightarrow> bool" where
  "strcmp_eq a b = (c_str a = c_str b)"

section \<open>Expiry (isRecordExpired)\<close>

definition isRecordExpired :: "env \<Rightarrow> uint32_t \<Rightarrow> bool" where
  "isRecordExpired e expiry =
     (if expiry = 0 then False
      else (let currentMillis = millis e in 0 \<le> sint (currentMillis - expiry)))"

section \<open>Compaction (compactRecords)\<close>

text \<open>
  The loop of \<open>compactRecords\<close> over the array, with its read and write cursors; \<open>n\<close> is
  \<open>_recordCount\<close>.  It returns the array and the final write cursor.
\<close>

function compact_loop :: "IMDBRecord list \<Rightarrow> nat \<Rightarrow> nat \<Rightarrow> nat \<Rightarrow> IMDBRecord list \<times> nat" where
  "compact_loop rs n readIndex writeIndex =
     (if readIndex < n then
        (if isValid (rs ! readIndex) then
           (if writeIndex \<noteq> readIndex then
              (let rs1 = rs[writeIndex := rs ! readIndex];
                   rs2 = rs1[readIndex := (rs1 ! readIndex)\<lparr>rfields := None\<rparr>];
                   rs3 = rs2[readIndex := (rs2 ! readIndex)\<lparr>isValid := False\<rparr>]
               in compact_loop rs3 n (readIndex + 1) (writeIndex + 1))
            else compact_loop rs n (readIndex + 1) (writeIndex + 1))
         else compact_loop rs n (readIndex + 1) writeIndex)
      else (rs, writeIndex))"
  by pat_completeness auto
termination
  by (relation "measure (\<lambda>(rs, n, readIndex, writeIndex). n - readIndex)") auto

declare compact_loop.simps [simp del]

definition compactRecords :: "ESP32IMDB \<Rightarrow> ESP32IMDB" where
  "compactRecords s =
     (case compact_loop (records s) (recordCount s) 0 0 of
        (rs, writeIndex) \<Rightarrow> s\<lparr>records := rs, recordCount := writeIndex\<rparr>)"

text \<open>The records of the store: the first \<open>recordCount\<close> slots of the array.\<close>

definition stored :: "ESP32IMDB \<Rightarrow> IMDBRecord list" where
  "stored s = take (recordCount s) (records s)"

section \<open>Schema lookup, comparison and copying of field values\<close>

text \<open>\<open>_columns[i]\<close> for \<open>i < _columnCount\<close>.\<close>

definition schema :: "ESP32IMDB \<Rightarrow> IMDBColumn list" where
  "schema s = (case columns s of None \<Rightarrow> [] | Some cs \<Rightarrow> take (unat (columnCount s)) cs)"

fun findColumnIndex_loop :: "IMDBColumn list \<Rightarrow> string \<Rightarrow> nat \<Rightarrow> int" where
  "findColumnIndex_loop [] columnName i = -1"
| "findColumnIndex_loop (c # cs) columnName i =
     (if strcmp_eq (name c) columnName then int i
      else findColumnIndex_loop cs columnName (i + 1))"

definition findColumnIndex :: "ESP32IMDB \<Rightarrow> string \<Rightarrow> int" where
  "findColumnIndex s columnName = findColumnIndex_loop (schema s) columnName 0"

text \<open>\<open>_columns[idx].type\<close>.\<close>

definition columnType :: "ESP32IMDB \<Rightarrow> nat \<Rightarrow> IMDBDataType" where
  "columnType s idx = type (schema s ! idx)"

text \<open>
  \<open>&record.fields[idx]\<close>, as \<open>compareValues\<close> and \<open>getFieldValue\<close> receive it: \<open>None\<close> when
  there is no such field to point to.
\<close>

definition fieldAt :: "IMDBRecord \<Rightarrow> nat \<Rightarrow> IMDBFieldValue option" where
  "fieldAt r idx =
     (case rfields r of
        None \<Rightarrow> None
      | Some fs \<Rightarrow> (if idx < length fs then Some (fs ! idx) else None))"

text \<open>
  \<open>compareValues\<close>.  The value to compare with is the object the \<open>void*\<close> points to, read
  under the column type; \<open>None\<close> is the null pointer.  \<open>strcmp\<close> against a null string is
  undefined in C; the model answers \<open>False\<close> there.
\<close>

fun compareValues ::
  "env \<Rightarrow> IMDBFieldValue option \<Rightarrow> IMDBFieldValue option \<Rightarrow> IMDBDataType \<Rightarrow> IMDBOperator \<Rightarrow> bool"
where
  "compareValues e None compareValue ty op = False"
| "compareValues e (Some fieldValue) None ty op = False"
| "compareValues e (Some fieldValue) (Some compareValue) ty op =
     (case ty of
        IMDB_TYPE_INT32 \<Rightarrow>
          (let a = get_int32Value fieldValue; b = get_int32Value compareValue in
           case op of
             IMDB_OP_EQUAL \<Rightarrow> a = b
           | IMDB_OP_NOT_EQUAL \<Rightarrow> a \<noteq> b
           | IMDB_OP_GREATER \<Rightarrow> sint a > sint b
           | IMDB_OP_LESS \<Rightarrow> sint a < sint b
           | IMDB_OP_GREATER_EQUAL \<Rightarrow> sint a \<ge> sint b
           | IMDB_OP_LESS_EQUAL \<Rightarrow> sint a \<le> sint b)
      | IMDB_TYPE_MAC \<Rightarrow> get_macAddress fieldValue = get_macAddress compareValue
      | IMDB_TYPE_STRING \<Rightarrow>
          (case get_stringValue fieldValue of
             None \<Rightarrow> False
           | Some a \<Rightarrow>
               (case get_stringValue compareValue of
                  None \<Rightarrow> False
                | Some b \<Rightarrow> strcmp_eq a b))
      | IMDB_TYPE_EPOCH \<Rightarrow>
          (let a = get_epochValue fieldValue; b = get_epochValue compareValue in
           case op of
             IMDB_OP_EQUAL \<Rightarrow> a = b
           | IMDB_OP_NOT_EQUAL \<Rightarrow> a \<noteq> b
           | IMDB_OP_GREATER \<Rightarrow> a > b
           | IMDB_OP_LESS \<Rightarrow> a < b
           | IMDB_OP_GREATER_EQUAL \<Rightarrow> a \<ge> b
           | IMDB_OP_LESS_EQUAL \<Rightarrow> a \<le> b)
      | IMDB_TYPE_BOOL \<Rightarrow> get_boolValue fieldValue = get_boolValue compareValue
      | IMDB_TYPE_FLOAT \<Rightarrow>
          (let a = get_floatValue fieldValue; b = get_floatValue compareValue in
           case op of
             IMDB_OP_EQUAL \<Rightarrow> floatEq e a b
           | IMDB_OP_NOT_EQUAL \<Rightarrow> \<not> floatEq e a b
           | IMDB_OP_GREATER \<Rightarrow> floatLt e b a
           | IMDB_OP_LESS \<Rightarrow> floatLt e a b
           | IMDB_OP_GREATER_EQUAL \<Rightarrow> floatLe e b a
           | IMDB_OP_LESS_EQUAL \<Rightarrow> floatLe e a b)
      | IMDB_TYPE_OUT_OF_RANGE b \<Rightarrow> False)"

text \<open>
  \<open>copyFieldValue(dest, src, type)\<close>: the result code, the new contents of \<open>*dest\<close> and the
  heap.  \<open>src\<close> is the object the non-null \<open>void*\<close> points to.  A failed \<open>malloc\<close> has
  already stored its null result in \<open>dest->stringValue\<close>.
\<close>

definition copyFieldValue ::
  "env \<Rightarrow> IMDBFieldValue \<Rightarrow> IMDBFieldValue \<Rightarrow> IMDBDataType \<Rightarrow> Heap \<Rightarrow> IMDBResult \<times> IMDBFieldValue \<times> Heap"
where
  "copyFieldValue e dest src ty h =
     (case ty of
        IMDB_TYPE_INT32 \<Rightarrow> (IMDB_OK, Int32Value (get_int32Value src), h)
      | IMDB_TYPE_MAC \<Rightarrow> (IMDB_OK, MacAddress (get_macAddress src), h)
      | IMDB_TYPE_STRING \<Rightarrow>
          (case get_stringValue src of
             None \<Rightarrow> (IMDB_ERROR_INVALID_VALUE, dest, h)
           | Some srcStr \<Rightarrow>
               (let len = (if strlen srcStr > IMDB_MAX_STRING_LENGTH
                           then IMDB_MAX_STRING_LENGTH else strlen srcStr)
                in case malloc e h of
                     (False, h1) \<Rightarrow> (IMDB_ERROR_OUT_OF_MEMORY, StringValue None, h1)
                   | (True, h1) \<Rightarrow> (IMDB_OK, StringValue (Some (take len (c_str srcStr))), h1)))
      | IMDB_TYPE_EPOCH \<Rightarrow> (IMDB_OK, EpochValue (get_epochValue src), h)
      | IMDB_TYPE_BOOL \<Rightarrow> (IMDB_OK, BoolValue (get_boolValue src), h)
      | IMDB_TYPE_FLOAT \<Rightarrow> (IMDB_OK, FloatValue (get_floatValue src), h)
      | IMDB_TYPE_OUT_OF_RANGE b \<Rightarrow> (IMDB_OK, dest, h))"

section \<open>Freeing, purging and growing\<close>

text \<open>
  The loop of \<open>freeRecord\<close> (and the cleanup loops of \<open>insert\<close> and \<open>loadFromFile\<close>) over the
  columns and the fields at the same index: every non-null string is freed.
\<close>

fun free_strings :: "IMDBColumn list \<Rightarrow> IMDBFieldValue list \<Rightarrow> Heap \<Rightarrow> Heap" where
  "free_strings (c # cs) (f # fs) h =
     free_strings cs fs
       (if type c = IMDB_TYPE_STRING \<and> get_stringValue f \<noteq> None then free h else h)"
| "free_strings cs fs h = h"

definition freeRecord :: "ESP32IMDB \<Rightarrow> IMDBRecord \<Rightarrow> Heap \<Rightarrow> IMDBRecord \<times> Heap" where
  "freeRecord s r h =
     (case rfields r of
        None \<Rightarrow> (r, h)
      | Some fs \<Rightarrow>
          (let h1 = (if columns s \<noteq> None then free_strings (schema s) fs h else h)
           in (r\<lparr>rfields := None\<rparr>, free h1)))"

text \<open>
  The purge loop of \<open>purgeExpiredRecords\<close> over the first \<open>_recordCount\<close> slots.
\<close>

fun purge_loop :: "env \<Rightarrow> ESP32IMDB \<Rightarrow> IMDBRecord list \<Rightarrow> Heap \<Rightarrow> IMDBRecord list \<times> Heap" where
  "purge_loop e s [] h = ([], h)"
| "purge_loop e s (r # rs) h =
     (if isValid r \<and> isRecordExpired e (expiryMillis r) then
        (case freeRecord s r h of
           (r1, h1) \<Rightarrow>
             (case purge_loop e s rs h1 of
                (rs', h') \<Rightarrow> (r1\<lparr>isValid := False\<rparr> # rs', h')))
      else
        (case purge_loop e s rs h of (rs', h') \<Rightarrow> (r # rs', h')))"

text \<open>The slots from \<open>recordCount\<close> on: allocated, holding no record.\<close>

definition spare :: "ESP32IMDB \<Rightarrow> IMDBRecord list" where
  "spare s = drop (recordCount s) (records s)"

definition purgeExpiredRecords :: "env \<Rightarrow> ESP32IMDB \<Rightarrow> ESP32IMDB" where
  "purgeExpiredRecords e s =
     (if \<not> tableExists s then s
      else (case purge_loop e s (stored s) (heap s) of
              (rs', h') \<Rightarrow> compactRecords (s\<lparr>records := rs' @ spare s, heap := h'\<rparr>)))"

definition growRecordArray :: "env \<Rightarrow> ESP32IMDB \<Rightarrow> IMDBResult \<times> ESP32IMDB" where
  "growRecordArray e s =
     (if \<not> checkHeapLimit e (heap s) then (IMDB_ERROR_HEAP_LIMIT, s)
      else if recordCapacity s > INT_MAX div 2 then (IMDB_ERROR_OUT_OF_MEMORY, s)
      else
        (let newCapacity = recordCapacity s * 2 in
         case realloc e (heap s) of
           (False, h1) \<Rightarrow> (IMDB_ERROR_OUT_OF_MEMORY, s\<lparr>heap := h1\<rparr>)
         | (True, h1) \<Rightarrow>
             (IMDB_OK,
              s\<lparr>records := records s @ replicate (newCapacity - recordCapacity s) (uninitRecord e),
                recordCapacity := newCapacity, heap := h1\<rparr>)))"

section \<open>Table operations (createTable, dropTable)\<close>

text \<open>The state the constructor leaves.\<close>

definition newESP32IMDB :: ESP32IMDB where
  "newESP32IMDB =
     \<lparr>columns = None, columnCount = 0, records = [], recordCount = 0, recordCapacity = 0,
      tableExists = False, heap = \<lparr>mallocCalls = 0, liveBlocks = 0\<rparr>\<rparr>"

text \<open>
  \<open>createTable(columns, columnCount)\<close>.  The argument \<open>columns\<close> is \<open>None\<close> for a null
  pointer and otherwise gives the element at each index of the caller's array.
\<close>

definition createTable ::
  "env \<Rightarrow> (nat \<Rightarrow> IMDBColumn) option \<Rightarrow> uint8_t \<Rightarrow> ESP32IMDB \<Rightarrow> IMDBResult \<times> ESP32IMDB"
where
  "createTable e cols cnt s =
     (if tableExists s then (IMDB_ERROR_TABLE_EXISTS, s)
      else case cols of
        None \<Rightarrow> (IMDB_ERROR_INVALID_VALUE, s)
      | Some colAt \<Rightarrow>
          if cnt = 0 then (IMDB_ERROR_INVALID_VALUE, s)
          else if \<not> checkHeapLimit e (heap s) then (IMDB_ERROR_HEAP_LIMIT, s)
          else
            (case malloc e (heap s) of
               (False, h1) \<Rightarrow> (IMDB_ERROR_OUT_OF_MEMORY, s\<lparr>columns := None, heap := h1\<rparr>)
             | (True, h1) \<Rightarrow>
                 (let s1 = s\<lparr>columns := Some (map colAt [0..<unat cnt]), columnCount := cnt,
                             tableExists := True, recordCapacity := 10, heap := h1\<rparr>
                  in case malloc e h1 of
                       (False, h2) \<Rightarrow>
                         (IMDB_ERROR_OUT_OF_MEMORY,
                          s1\<lparr>records := [], columns := None, tableExists := False, heap := free h2\<rparr>)
                     | (True, h2) \<Rightarrow>
                         (IMDB_OK,
                          s1\<lparr>records := replicate 10 (uninitRecord e), recordCount := 0,
                             heap := h2\<rparr>))))"

fun freeRecords_loop :: "ESP32IMDB \<Rightarrow> IMDBRecord list \<Rightarrow> Heap \<Rightarrow> Heap" where
  "freeRecords_loop s [] h = h"
| "freeRecords_loop s (r # rs) h = freeRecords_loop s rs (snd (freeRecord s r h))"

definition dropTable :: "ESP32IMDB \<Rightarrow> IMDBResult \<times> ESP32IMDB" where
  "dropTable s =
     (if \<not> tableExists s then (IMDB_ERROR_NO_TABLE, s)
      else
        (let h1 = freeRecords_loop s (stored s) (heap s) in
         (IMDB_OK,
          s\<lparr>records := [], columns := None, recordCount := 0, recordCapacity := 0,
            columnCount := 0, tableExists := False, heap := free (free h1)\<rparr>)))"

section \<open>Insertion (insert)\<close>

text \<open>The field array after \<open>memset(record->fields, 0, ...)\<close>: every member reads as zero.\<close>

fun zeroValue :: "IMDBDataType \<Rightarrow> IMDBFieldValue" where
  "zeroValue IMDB_TYPE_INT32 = Int32Value 0"
| "zeroValue IMDB_TYPE_MAC = MacAddress (Mac 0 0 0 0 0 0)"
| "zeroValue IMDB_TYPE_STRING = StringValue None"
| "zeroValue IMDB_TYPE_EPOCH = EpochValue 0"
| "zeroValue IMDB_TYPE_BOOL = BoolValue False"
| "zeroValue IMDB_TYPE_FLOAT = FloatValue 0"
| "zeroValue (IMDB_TYPE_OUT_OF_RANGE b) = Int32Value 0"

text \<open>
  The cleanup on error in the copy loop of \<open>insert\<close>: the strings of the fields before
  index \<open>i\<close> are freed, then the field array.
\<close>

definition insert_cleanup :: "IMDBColumn list \<Rightarrow> IMDBFieldValue list \<Rightarrow> nat \<Rightarrow> Heap \<Rightarrow> Heap" where
  "insert_cleanup cols fs i h = free (free_strings (take i cols) fs h)"

text \<open>
  The copy loop of \<open>insert\<close>: \<open>cols\<close> is the schema, \<open>todo\<close> its columns from index \<open>i\<close> on,
  \<open>vals i\<close> is \<open>values[i]\<close> (\<open>None\<close> for a null pointer), \<open>fs\<close> the field array.
\<close>

fun insert_loop ::
  "env \<Rightarrow> IMDBColumn list \<Rightarrow> (nat \<Rightarrow> IMDBFieldValue option) \<Rightarrow> IMDBColumn list \<Rightarrow> nat \<Rightarrow>
   IMDBFieldValue list \<Rightarrow> Heap \<Rightarrow> IMDBResult \<times> IMDBFieldValue list \<times> Heap"
where
  "insert_loop e cols vals [] i fs h = (IMDB_OK, fs, h)"
| "insert_loop e cols vals (c # todo) i fs h =
     (case vals i of
        None \<Rightarrow> (IMDB_ERROR_INVALID_VALUE, fs, insert_cleanup cols fs i h)
      | Some v \<Rightarrow>
          (case copyFieldValue e (fs ! i) v (type c) h of
             (result, f, h1) \<Rightarrow>
               if result \<noteq> IMDB_OK
               then (result, fs[i := f], insert_cleanup cols (fs[i := f]) i h1)
               else insert_loop e cols vals todo (i + 1) (fs[i := f]) h1))"

text \<open>
  \<open>insert(values, ttlMillis)\<close>.  \<open>values\<close> is \<open>None\<close> for a null pointer.  The record is built
  in the slot \<open>_records[_recordCount]\<close>; on an error that slot keeps the pointer to the
  freed field array, and \<open>_recordCount\<close> is not incremented.
\<close>

definition insert_imdb ::
  "env \<Rightarrow> (nat \<Rightarrow> IMDBFieldValue option) option \<Rightarrow> uint32_t \<Rightarrow> ESP32IMDB \<Rightarrow> IMDBResult \<times> ESP32IMDB"
where
  "insert_imdb e values ttlMillis s =
     (if \<not> tableExists s then (IMDB_ERROR_NO_TABLE, s)
      else case values of
        None \<Rightarrow> (IMDB_ERROR_INVALID_VALUE, s)
      | Some vals \<Rightarrow>
          if \<not> checkHeapLimit e (heap s) then (IMDB_ERROR_HEAP_LIMIT, s)
          else if unat ttlMillis > IMDB_MAX_TTL_MS then (IMDB_ERROR_INVALID_VALUE, s)
          else
            (case (if recordCount s \<ge> recordCapacity s then growRecordArray e s else (IMDB_OK, s)) of
               (result, s1) \<Rightarrow>
                 if result \<noteq> IMDB_OK then (result, s1)
                 else
                   (let slot = recordCount s1; record = records s1 ! slot in
                    case malloc e (heap s1) of
                      (False, h1) \<Rightarrow>
                        (IMDB_ERROR_OUT_OF_MEMORY,
                         s1\<lparr>records := (records s1)[slot := record\<lparr>rfields := None\<rparr>], heap := h1\<rparr>)
                    | (True, h1) \<Rightarrow>
                        (case insert_loop e (schema s1) vals (schema s1) 0
                                (map (\<lambda>c. zeroValue (type c)) (schema s1)) h1 of
                           (result, fs, h2) \<Rightarrow>
                             if result \<noteq> IMDB_OK
                             then (result,
                                   s1\<lparr>records := (records s1)[slot := record\<lparr>rfields := Some fs\<rparr>],
                                      heap := h2\<rparr>)
                             else (IMDB_OK,
                                   s1\<lparr>records := (records s1)[slot :=
                                          \<lparr>rfields = Some fs,
                                           expiryMillis = (if ttlMillis > 0 then millis e + ttlMillis else 0),
                                           isValid = True\<rparr>],
                                      recordCount := recordCount s1 + 1, heap := h2\<rparr>)))))"

section \<open>Update, arithmetic update and deletion\<close>

text \<open>
  \<open>record.fields[idx]\<close> read and written.  A valid record always owns a field array; for
  a record whose \<open>fields\<close> is null the C code would dereference a null pointer, and the
  model reads zero and writes nothing.
\<close>

definition getField :: "IMDBRecord \<Rightarrow> nat \<Rightarrow> IMDBFieldValue" where
  "getField r idx = (case fieldAt r idx of None \<Rightarrow> Int32Value 0 | Some f \<Rightarrow> f)"

definition setField :: "IMDBRecord \<Rightarrow> nat \<Rightarrow> IMDBFieldValue \<Rightarrow> IMDBRecord" where
  "setField r idx f = r\<lparr>rfields := map_option (\<lambda>fs. fs[idx := f]) (rfields r)\<rparr>"

text \<open>The test every scan but that of \<open>deleteRecords\<close> starts with.\<close>

definition live :: "env \<Rightarrow> IMDBRecord \<Rightarrow> bool" where
  "live e r = (isValid r \<and> \<not> isRecordExpired e (expiryMillis r))"

text \<open>\<open>compareValues(&record.fields[whereIdx], whereValue, _columns[whereIdx].type)\<close>.\<close>

definition matches :: "env \<Rightarrow> ESP32IMDB \<Rightarrow> nat \<Rightarrow> IMDBFieldValue option \<Rightarrow> IMDBRecord \<Rightarrow> bool" where
  "matches e s whereIdx whereValue r =
     compareValues e (fieldAt r whereIdx) whereValue (columnType s whereIdx) IMDB_OP_EQUAL"

text \<open>
  The loop of \<open>update\<close> over the stored records.  It returns the error that ended it
  early, if any, the records, the flag \<open>updated\<close> and the heap.
\<close>

fun update_loop ::
  "env \<Rightarrow> ESP32IMDB \<Rightarrow> nat \<Rightarrow> IMDBFieldValue option \<Rightarrow> nat \<Rightarrow> IMDBFieldValue \<Rightarrow>
   IMDBRecord list \<Rightarrow> bool \<Rightarrow> Heap \<Rightarrow> IMDBResult option \<times> IMDBRecord list \<times> bool \<times> Heap"
where
  "update_loop e s whereIdx whereValue setIdx setValue [] updated h = (None, [], updated, h)"
| "update_loop e s whereIdx whereValue setIdx setValue (r # rs) updated h =
     (if \<not> isValid r \<or> isRecordExpired e (expiryMillis r) then
        (case update_loop e s whereIdx whereValue setIdx setValue rs updated h of
           (err, rs', u, h') \<Rightarrow> (err, r # rs', u, h'))
      else if matches e s whereIdx whereValue r then
        (case (if columnType s setIdx = IMDB_TYPE_STRING
                  \<and> get_stringValue (getField r setIdx) \<noteq> None
               then (setField r setIdx (StringValue None), free h) else (r, h)) of
           (r1, h1) \<Rightarrow>
             (case copyFieldValue e (getField r1 setIdx) setValue (columnType s setIdx) h1 of
                (result, f, h2) \<Rightarrow>
                  if result \<noteq> IMDB_OK then (Some result, setField r1 setIdx f # rs, updated, h2)
                  else
                    (case update_loop e s whereIdx whereValue setIdx setValue rs True h2 of
                       (err, rs', u, h') \<Rightarrow> (err, setField r1 setIdx f # rs', u, h'))))
      else
        (case update_loop e s whereIdx whereValue setIdx setValue rs updated h of
           (err, rs', u, h') \<Rightarrow> (err, r # rs', u, h')))"

definition update ::
  "env \<Rightarrow> string option \<Rightarrow> IMDBFieldValue option \<Rightarrow> string option \<Rightarrow> IMDBFieldValue option \<Rightarrow>
   ESP32IMDB \<Rightarrow> IMDBResult \<times> ESP32IMDB"
where
  "update e whereColumn whereValue setColumn setValue s =
     (if \<not> tableExists s then (IMDB_ERROR_NO_TABLE, s)
      else if whereColumn = None \<or> whereValue = None \<or> setColumn = None \<or> setValue = None
      then (IMDB_ERROR_INVALID_VALUE, s)
      else
        (let whereIdx = findColumnIndex s (the whereColumn);
             setIdx = findColumnIndex s (the setColumn)
         in if whereIdx < 0 \<or> setIdx < 0 then (IMDB_ERROR_COLUMN_NOT_FOUND, s)
            else
              (case update_loop e s (nat whereIdx) whereValue (nat setIdx) (the setValue)
                      (stored s) False (heap s) of
                 (err, rs', updated, h') \<Rightarrow>
                   (case err of
                      Some result \<Rightarrow> result
                    | None \<Rightarrow> if updated then IMDB_OK else IMDB_ERROR_NO_RECORDS,
                    s\<lparr>records := rs' @ spare s, heap := h'\<rparr>))))"

text \<open>\<open>floatModulo\<close>; \<open>0.0f\<close> is the all-zero pattern.\<close>

definition floatModulo :: "env \<Rightarrow> float \<Rightarrow> float \<Rightarrow> float" where
  "floatModulo e x y =
     (if floatEq e y 0 then 0
      else floatSub e x (floatMul e (floatOfInt e (intOfFloat e (floatDiv e x y))) y))"

text \<open>
  The body of the loop of \<open>updateWithMath\<close> for a record that matches: the error it
  returns with, if any, and the new value of the field.  Integer arithmetic wraps;
  \<open>/\<close> and \<open>%\<close> truncate towards zero.
\<close>

definition math_step ::
  "env \<Rightarrow> IMDBDataType \<Rightarrow> IMDBMathOp \<Rightarrow> int32_t \<Rightarrow> IMDBFieldValue \<Rightarrow> IMDBResult option \<times> IMDBFieldValue"
where
  "math_step e setType operation operand field =
     (if setType = IMDB_TYPE_FLOAT then
        (let v = get_floatValue field; floatOperand = floatOfInt e operand in
         case operation of
           IMDB_MATH_ADD \<Rightarrow> (None, FloatValue (floatAdd e v floatOperand))
         | IMDB_MATH_SUBTRACT \<Rightarrow> (None, FloatValue (floatSub e v floatOperand))
         | IMDB_MATH_MULTIPLY \<Rightarrow> (None, FloatValue (floatMul e v floatOperand))
         | IMDB_MATH_DIVIDE \<Rightarrow>
             if operand = 0 then (Some IMDB_ERROR_INVALID_OPERATION, field)
             else (None, FloatValue (floatDiv e v floatOperand))
         | IMDB_MATH_MODULO \<Rightarrow>
             if operand = 0 then (Some IMDB_ERROR_INVALID_OPERATION, field)
             else (None, FloatValue (floatModulo e v floatOperand)))
      else
        (let v = (if setType = IMDB_TYPE_INT32 then get_int32Value field else get_epochValue field);
             store = (\<lambda>w. if setType = IMDB_TYPE_INT32 then Int32Value w else EpochValue w)
         in case operation of
           IMDB_MATH_ADD \<Rightarrow> (None, store (v + operand))
         | IMDB_MATH_SUBTRACT \<Rightarrow> (None, store (v - operand))
         | IMDB_MATH_MULTIPLY \<Rightarrow> (None, store (v * operand))
         | IMDB_MATH_DIVIDE \<Rightarrow>
             if operand = 0 then (Some IMDB_ERROR_INVALID_OPERATION, field)
             else (None, store (word_of_int (sint v sdiv sint operand)))
         | IMDB_MATH_MODULO \<Rightarrow>
             if operand = 0 then (Some IMDB_ERROR_INVALID_OPERATION, field)
             else (None, store (word_of_int (sint v smod sint operand)))))"

fun math_loop ::
  "env \<Rightarrow> ESP32IMDB \<Rightarrow> nat \<Rightarrow> IMDBFieldValue option \<Rightarrow> nat \<Rightarrow> IMDBMathOp \<Rightarrow> int32_t \<Rightarrow>
   IMDBRecord list \<Rightarrow> bool \<Rightarrow> IMDBResult option \<times> IMDBRecord list \<times> bool"
where
  "math_loop e s whereIdx whereValue setIdx operation operand [] updated = (None, [], updated)"
| "math_loop e s whereIdx whereValue setIdx operation operand (r # rs) updated =
     (if \<not> isValid r \<or> isRecordExpired e (expiryMillis r) then
        (case math_loop e s whereIdx whereValue setIdx operation operand rs updated of
           (err, rs', u) \<Rightarrow> (err, r # rs', u))
      else if matches e s whereIdx whereValue r then
        (case math_step e (columnType s setIdx) operation operand (getField r setIdx) of
           (Some result, f) \<Rightarrow> (Some result, r # rs, updated)
         | (None, f) \<Rightarrow>
             (case math_loop e s whereIdx whereValue setIdx operation operand rs True of
                (err, rs', u) \<Rightarrow> (err, setField r setIdx f # rs', u)))
      else
        (case math_loop e s whereIdx whereValue setIdx operation operand rs updated of
           (err, rs', u) \<Rightarrow> (err, r # rs', u)))"

definition updateWithMath ::
  "env \<Rightarrow> string option \<Rightarrow> IMDBFieldValue option \<Rightarrow> string option \<Rightarrow> IMDBMathOp \<Rightarrow> int32_t \<Rightarrow>
   ESP32IMDB \<Rightarrow> IMDBResult \<times> ESP32IMDB"
where
  "updateWithMath e whereColumn whereValue setColumn operation operand s =
     (if \<not> tableExists s then (IMDB_ERROR_NO_TABLE, s)
      else if whereColumn = None \<or> whereValue = None \<or> setColumn = None
      then (IMDB_ERROR_INVALID_VALUE, s)
      else
        (let whereIdx = findColumnIndex s (the whereColumn);
             setIdx = findColumnIndex s (the setColumn)
         in if whereIdx < 0 \<or> setIdx < 0 then (IMDB_ERROR_COLUMN_NOT_FOUND, s)
            else if columnType s (nat setIdx) \<noteq> IMDB_TYPE_INT32
                  \<and> columnType s (nat setIdx) \<noteq> IMDB_TYPE_EPOCH
                  \<and> columnType s (nat setIdx) \<noteq> IMDB_TYPE_FLOAT
            then (IMDB_ERROR_INVALID_TYPE, s)
            else
              (case math_loop e s (nat whereIdx) whereValue (nat setIdx) operation operand
                      (stored s) False of
                 (err, rs', updated) \<Rightarrow>
                   (case err of
                      Some result \<Rightarrow> result
                    | None \<Rightarrow> if updated then IMDB_OK else IMDB_ERROR_NO_RECORDS,
                    s\<lparr>records := rs' @ spare s\<rparr>))))"

text \<open>The loop of \<open>deleteRecords\<close>; it tests \<open>isValid\<close> only.\<close>

fun delete_loop ::
  "env \<Rightarrow> ESP32IMDB \<Rightarrow> nat \<Rightarrow> IMDBFieldValue option \<Rightarrow> IMDBRecord list \<Rightarrow> bool \<Rightarrow> Heap \<Rightarrow>
   IMDBRecord list \<times> bool \<times> Heap"
where
  "delete_loop e s whereIdx whereValue [] deleted h = ([], deleted, h)"
| "delete_loop e s whereIdx whereValue (r # rs) deleted h =
     (if \<not> isValid r then
        (case delete_loop e s whereIdx whereValue rs deleted h of
           (rs', d, h') \<Rightarrow> (r # rs', d, h'))
      else if matches e s whereIdx whereValue r then
        (case freeRecord s r h of
           (r1, h1) \<Rightarrow>
             (case delete_loop e s whereIdx whereValue rs True h1 of
                (rs', d, h') \<Rightarrow> (r1\<lparr>isValid := False\<rparr> # rs', d, h')))
      else
        (case delete_loop e s whereIdx whereValue rs deleted h of
           (rs', d, h') \<Rightarrow> (r # rs', d, h')))"

definition deleteRecords ::
  "env \<Rightarrow> string option \<Rightarrow> IMDBFieldValue option \<Rightarrow> ESP32IMDB \<Rightarrow> IMDBResult \<times> ESP32IMDB"
where
  "deleteRecords e whereColumn whereValue s =
     (if \<not> tableExists s then (IMDB_ERROR_NO_TABLE, s)
      else if whereColumn = None \<or> whereValue = None then (IMDB_ERROR_INVALID_VALUE, s)
      else
        (let whereIdx = findColumnIndex s (the whereColumn)
         in if whereIdx < 0 then (IMDB_ERROR_COLUMN_NOT_FOUND, s)
            else
              (case delete_loop e s (nat whereIdx) whereValue (stored s) False (heap s) of
                 (rs', deleted, h') \<Rightarrow>
                   (let s1 = s\<lparr>records := rs' @ spare s, heap := h'\<rparr>
                    in if deleted then (IMDB_OK, compactRecords s1)
                       else (IMDB_ERROR_NO_RECORDS, s1)))))"

section \<open>Queries (select, selectAll) and aggregates (count, countWhere, min, max, top)\<close>

text \<open>
  \<open>getFieldValue(field, type, result)\<close>.  The member \<open>stringValue\<close> of the result is a
  \<open>char[256]\<close>; the model keeps the C string it holds.
\<close>

definition getFieldValue :: "IMDBFieldValue \<Rightarrow> IMDBDataType \<Rightarrow> IMDBSelectResult \<Rightarrow> IMDBSelectResult" where
  "getFieldValue field ty result =
     (let r1 = result\<lparr>resultType := ty, hasValue := True\<rparr> in
      case ty of
        IMDB_TYPE_INT32 \<Rightarrow> r1\<lparr>int32Value := get_int32Value field\<rparr>
      | IMDB_TYPE_MAC \<Rightarrow> r1\<lparr>macAddress := get_macAddress field\<rparr>
      | IMDB_TYPE_STRING \<Rightarrow>
          (case get_stringValue field of
             Some str \<Rightarrow> r1\<lparr>stringValue := take IMDB_MAX_STRING_LENGTH (c_str str)\<rparr>
           | None \<Rightarrow> r1\<lparr>stringValue := []\<rparr>)
      | IMDB_TYPE_EPOCH \<Rightarrow> r1\<lparr>epochValue := get_epochValue field\<rparr>
      | IMDB_TYPE_BOOL \<Rightarrow> r1\<lparr>boolValue := get_boolValue field\<rparr>
      | IMDB_TYPE_FLOAT \<Rightarrow> r1\<lparr>floatValue := get_floatValue field\<rparr>
      | IMDB_TYPE_OUT_OF_RANGE b \<Rightarrow> r1)"

fun select_loop ::
  "env \<Rightarrow> ESP32IMDB \<Rightarrow> nat \<Rightarrow> nat \<Rightarrow> IMDBFieldValue option \<Rightarrow> IMDBRecord list \<Rightarrow>
   IMDBSelectResult \<Rightarrow> IMDBSelectResult option"
where
  "select_loop e s colIdx whereIdx whereValue [] result = None"
| "select_loop e s colIdx whereIdx whereValue (r # rs) result =
     (if \<not> isValid r \<or> isRecordExpired e (expiryMillis r)
      then select_loop e s colIdx whereIdx whereValue rs result
      else if matches e s whereIdx whereValue r
      then Some (getFieldValue (getField r colIdx) (columnType s colIdx) result)
      else select_loop e s colIdx whereIdx whereValue rs result)"

text \<open>
  \<open>select(column, whereColumn, whereValue, result)\<close>: the result code and the object
  \<open>result\<close> points to after the call (\<open>None\<close> for a null pointer).
\<close>

definition select ::
  "env \<Rightarrow> string option \<Rightarrow> string option \<Rightarrow> IMDBFieldValue option \<Rightarrow> IMDBSelectResult option \<Rightarrow>
   ESP32IMDB \<Rightarrow> IMDBResult \<times> IMDBSelectResult option"
where
  "select e column whereColumn whereValue result s =
     (if \<not> tableExists s then (IMDB_ERROR_NO_TABLE, result)
      else if column = None \<or> whereColumn = None \<or> whereValue = None \<or> result = None
      then (IMDB_ERROR_INVALID_VALUE, result)
      else
        (let colIdx = findColumnIndex s (the column);
             whereIdx = findColumnIndex s (the whereColumn)
         in if colIdx < 0 \<or> whereIdx < 0 then (IMDB_ERROR_COLUMN_NOT_FOUND, result)
            else
              (let r0 = (the result)\<lparr>hasValue := False\<rparr> in
               case select_loop e s (nat colIdx) (nat whereIdx) whereValue (stored s) r0 of
                 Some r \<Rightarrow> (IMDB_OK, Some r)
               | None \<Rightarrow> (IMDB_ERROR_NO_RECORDS, Some r0))))"

text \<open>
  The clock of an operation that examines the records twice.  \<open>isRecordExpired\<close> calls
  \<open>millis()\<close> every time its argument is not 0, so the two loops of \<open>selectAll\<close> and of
  \<open>top\<close> read the clock at different moments and need not agree on a record.  For
  these two operations the clock is the sequence of its readings: \<open>clock k\<close> is what
  call number \<open>k\<close> of \<open>millis()\<close> during the operation returns.  \<open>isRecordExpired_at\<close> is
  \<open>isRecordExpired\<close> on reading number \<open>k\<close>; it returns the number of the next reading as
  well.  \<open>steady e\<close> is the clock that stands at \<open>millis e\<close> during the whole operation.
\<close>

definition isRecordExpired_at :: "(nat \<Rightarrow> uint32_t) \<Rightarrow> nat \<Rightarrow> uint32_t \<Rightarrow> bool \<times> nat" where
  "isRecordExpired_at clock k expiry =
     (if expiry = 0 then (False, k)
      else (let currentMillis = clock k in (0 \<le> sint (currentMillis - expiry), k + 1)))"

definition steady :: "env \<Rightarrow> nat \<Rightarrow> uint32_t" where
  "steady e = (\<lambda>k. millis e)"

text \<open>
  The counting loop of \<open>selectAll\<close> (\<open>matches++\<close>), from reading number \<open>k\<close> of the clock
  on: it returns \<open>matches\<close> and the number of the next reading.  \<open>&&\<close> does not evaluate
  \<open>isRecordExpired\<close> for a record that is not valid.
\<close>

fun selectAll_count ::
  "env \<Rightarrow> (nat \<Rightarrow> uint32_t) \<Rightarrow> ESP32IMDB \<Rightarrow> nat \<Rightarrow> IMDBFieldValue option \<Rightarrow> IMDBRecord list \<Rightarrow>
   nat \<Rightarrow> nat \<Rightarrow> nat \<times> nat"
where
  "selectAll_count e clock s whereIdx whereValue [] k n = (n, k)"
| "selectAll_count e clock s whereIdx whereValue (r # rs) k n =
     (if isValid r then
        (case isRecordExpired_at clock k (expiryMillis r) of
           (expired, k') \<Rightarrow>
             selectAll_count e clock s whereIdx whereValue rs k'
               (if \<not> expired \<and> matches e s whereIdx whereValue r then n + 1 else n))
      else selectAll_count e clock s whereIdx whereValue rs k n)"

text \<open>
  One row of a result array: the inner loop over \<open>col\<close> of \<open>selectAll\<close> and \<open>top\<close>, writing
  into freshly allocated elements.
\<close>

definition resultRow :: "env \<Rightarrow> ESP32IMDB \<Rightarrow> IMDBRecord \<Rightarrow> IMDBSelectResult list" where
  "resultRow e s r =
     map (\<lambda>col. getFieldValue (getField r col) (columnType s col) (uninitResult e))
       [0..<unat (columnCount s)]"

text \<open>
  The fill loop of \<open>selectAll\<close>, from reading number \<open>k\<close> of the clock on.  Rows are
  written one after the other from the start of the array: the loop returns the rows
  it writes, in the order of the array.
\<close>

fun selectAll_fill ::
  "env \<Rightarrow> (nat \<Rightarrow> uint32_t) \<Rightarrow> ESP32IMDB \<Rightarrow> nat \<Rightarrow> IMDBFieldValue option \<Rightarrow> IMDBRecord list \<Rightarrow>
   nat \<Rightarrow> IMDBSelectResult list list"
where
  "selectAll_fill e clock s whereIdx whereValue [] k = []"
| "selectAll_fill e clock s whereIdx whereValue (r # rs) k =
     (if isValid r then
        (case isRecordExpired_at clock k (expiryMillis r) of
           (expired, k') \<Rightarrow>
             (if \<not> expired \<and> matches e s whereIdx whereValue r
              then resultRow e s r # selectAll_fill e clock s whereIdx whereValue rs k'
              else selectAll_fill e clock s whereIdx whereValue rs k'))
      else selectAll_fill e clock s whereIdx whereValue rs k)"

text \<open>
  \<open>selectAll(whereColumn, whereValue, results, resultCount)\<close>.  An out-parameter is
  \<open>None\<close> for a null pointer and \<open>Some v\<close> for a pointer to a variable holding \<open>v\<close>; the
  function returns the variables after the call.  The array \<open>*results\<close> is \<open>None\<close> when
  null.  The queries do not change the store, but \<open>selectAll\<close> and \<open>top\<close> allocate: they
  return the heap as well.  The array is allocated for \<open>matches\<close> rows, the number the
  first loop found, and \<open>*resultCount\<close> is that number; the rows are those the second
  loop finds.  Rows the second loop does not write keep what \<open>malloc\<close> returned; rows it
  writes beyond the \<open>matches\<close> allocated ones (the loop has no bound on \<open>resultIdx\<close>) are
  shown as the cells after the array.
\<close>

definition selectAll ::
  "env \<Rightarrow> (nat \<Rightarrow> uint32_t) \<Rightarrow> string option \<Rightarrow> IMDBFieldValue option \<Rightarrow>
   IMDBSelectResult list option option \<Rightarrow> int option \<Rightarrow> ESP32IMDB \<Rightarrow>
   IMDBResult \<times> IMDBSelectResult list option option \<times> int option \<times> Heap"
where
  "selectAll e clock whereColumn whereValue results resultCount s =
     (if \<not> tableExists s then (IMDB_ERROR_NO_TABLE, results, resultCount, heap s)
      else if whereColumn = None \<or> whereValue = None \<or> results = None \<or> resultCount = None
      then (IMDB_ERROR_INVALID_VALUE, results, resultCount, heap s)
      else
        (let whereIdx = findColumnIndex s (the whereColumn)
         in if whereIdx < 0 then (IMDB_ERROR_COLUMN_NOT_FOUND, results, resultCount, heap s)
            else
              (case selectAll_count e clock s (nat whereIdx) whereValue (stored s) 0 0 of
                 (n, k) \<Rightarrow>
                   if n = 0 then (IMDB_ERROR_NO_RECORDS, Some None, Some 0, heap s)
                   else
                     (case malloc e (heap s) of
                        (False, h1) \<Rightarrow> (IMDB_ERROR_OUT_OF_MEMORY, Some None, resultCount, h1)
                      | (True, h1) \<Rightarrow>
                          (let rows = selectAll_fill e clock s (nat whereIdx) whereValue (stored s) k in
                           (IMDB_OK,
                            Some (Some (concat rows
                                        @ replicate ((n - length rows) * unat (columnCount s))
                                            (uninitResult e))),
                            Some (int n), h1))))))"

fun count_loop :: "env \<Rightarrow> IMDBRecord list \<Rightarrow> int32_t \<Rightarrow> int32_t" where
  "count_loop e [] cnt = cnt"
| "count_loop e (r # rs) cnt =
     count_loop e rs
       (if isValid r \<and> \<not> isRecordExpired e (expiryMillis r) then cnt + 1 else cnt)"

definition count :: "env \<Rightarrow> ESP32IMDB \<Rightarrow> int32_t" where
  "count e s = (if \<not> tableExists s then 0 else count_loop e (stored s) 0)"

fun countWhere_loop ::
  "env \<Rightarrow> ESP32IMDB \<Rightarrow> nat \<Rightarrow> IMDBFieldValue option \<Rightarrow> IMDBRecord list \<Rightarrow> int32_t \<Rightarrow> int32_t"
where
  "countWhere_loop e s whereIdx whereValue [] cnt = cnt"
| "countWhere_loop e s whereIdx whereValue (r # rs) cnt =
     countWhere_loop e s whereIdx whereValue rs
       (if isValid r \<and> \<not> isRecordExpired e (expiryMillis r) \<and> matches e s whereIdx whereValue r
        then cnt + 1 else cnt)"

definition countWhere :: "env \<Rightarrow> string option \<Rightarrow> IMDBFieldValue option \<Rightarrow> ESP32IMDB \<Rightarrow> int32_t" where
  "countWhere e whereColumn whereValue s =
     (if \<not> tableExists s then 0
      else if whereColumn = None \<or> whereValue = None then 0
      else
        (let whereIdx = findColumnIndex s (the whereColumn)
         in if whereIdx < 0 then 0
            else countWhere_loop e s (nat whereIdx) whereValue (stored s) 0))"

text \<open>
  The loops of \<open>min\<close> and \<open>max\<close>: the state is \<open>result->hasValue\<close>, \<open>minVal\<close> (\<open>maxVal\<close>) and
  \<open>minFloat\<close> (\<open>maxFloat\<close>).  An epoch is cast to \<open>int32_t\<close> and compared signed.
\<close>

fun min_loop ::
  "env \<Rightarrow> IMDBDataType \<Rightarrow> nat \<Rightarrow> IMDBRecord list \<Rightarrow> bool \<times> int32_t \<times> float \<Rightarrow> bool \<times> int32_t \<times> float"
where
  "min_loop e ty colIdx [] st = st"
| "min_loop e ty colIdx (r # rs) (has, minVal, minFloat) =
     (if \<not> isValid r \<or> isRecordExpired e (expiryMillis r)
      then min_loop e ty colIdx rs (has, minVal, minFloat)
      else if ty = IMDB_TYPE_FLOAT then
        (let val = get_floatValue (getField r colIdx) in
         if \<not> has \<or> floatLt e val minFloat
         then min_loop e ty colIdx rs (True, minVal, val)
         else min_loop e ty colIdx rs (has, minVal, minFloat))
      else
        (let val = (if ty = IMDB_TYPE_INT32 then get_int32Value (getField r colIdx)
                    else get_epochValue (getField r colIdx)) in
         if \<not> has \<or> sint val < sint minVal
         then min_loop e ty colIdx rs (True, val, minFloat)
         else min_loop e ty colIdx rs (has, minVal, minFloat)))"

fun max_loop ::
  "env \<Rightarrow> IMDBDataType \<Rightarrow> nat \<Rightarrow> IMDBRecord list \<Rightarrow> bool \<times> int32_t \<times> float \<Rightarrow> bool \<times> int32_t \<times> float"
where
  "max_loop e ty colIdx [] st = st"
| "max_loop e ty colIdx (r # rs) (has, maxVal, maxFloat) =
     (if \<not> isValid r \<or> isRecordExpired e (expiryMillis r)
      then max_loop e ty colIdx rs (has, maxVal, maxFloat)
      else if ty = IMDB_TYPE_FLOAT then
        (let val = get_floatValue (getField r colIdx) in
         if \<not> has \<or> floatLt e maxFloat val
         then max_loop e ty colIdx rs (True, maxVal, val)
         else max_loop e ty colIdx rs (has, maxVal, maxFloat))
      else
        (let val = (if ty = IMDB_TYPE_INT32 then get_int32Value (getField r colIdx)
                    else get_epochValue (getField r colIdx)) in
         if \<not> has \<or> sint val > sint maxVal
         then max_loop e ty colIdx rs (True, val, maxFloat)
         else max_loop e ty colIdx rs (has, maxVal, maxFloat)))"

text \<open>What \<open>min\<close> and \<open>max\<close> do with the state their loop ends in.\<close>

definition extremum_result ::
  "IMDBDataType \<Rightarrow> bool \<times> int32_t \<times> float \<Rightarrow> IMDBSelectResult \<Rightarrow> IMDBResult \<times> IMDBSelectResult option"
where
  "extremum_result ty st result =
     (case st of
        (has, val, fl) \<Rightarrow>
          if \<not> has then (IMDB_ERROR_NO_RECORDS, Some (result\<lparr>hasValue := False\<rparr>))
          else
            (let r1 = result\<lparr>hasValue := True, resultType := ty\<rparr> in
             (IMDB_OK,
              Some (if ty = IMDB_TYPE_INT32 then r1\<lparr>int32Value := val\<rparr>
                    else if ty = IMDB_TYPE_EPOCH then r1\<lparr>epochValue := val\<rparr>
                    else r1\<lparr>floatValue := fl\<rparr>))))"

text \<open>\<open>min(column, result)\<close>; \<open>0x7F7FFFFF\<close> is the pattern of \<open>3.4028235e38f\<close>.\<close>

definition min_imdb ::
  "env \<Rightarrow> string option \<Rightarrow> IMDBSelectResult option \<Rightarrow> ESP32IMDB \<Rightarrow> IMDBResult \<times> IMDBSelectResult option"
where
  "min_imdb e column result s =
     (if \<not> tableExists s then (IMDB_ERROR_NO_TABLE, result)
      else if column = None \<or> result = None then (IMDB_ERROR_INVALID_VALUE, result)
      else
        (let colIdx = findColumnIndex s (the column)
         in if colIdx < 0 then (IMDB_ERROR_COLUMN_NOT_FOUND, result)
            else
              (let ty = columnType s (nat colIdx) in
               if ty \<noteq> IMDB_TYPE_INT32 \<and> ty \<noteq> IMDB_TYPE_EPOCH \<and> ty \<noteq> IMDB_TYPE_FLOAT
               then (IMDB_ERROR_INVALID_TYPE, result)
               else extremum_result ty
                      (min_loop e ty (nat colIdx) (stored s) (False, 0x7FFFFFFF, 0x7F7FFFFF))
                      (the result))))"

text \<open>\<open>max(column, result)\<close>; \<open>0xFF7FFFFF\<close> is the pattern of \<open>-3.4028235e38f\<close>.\<close>

definition max_imdb ::
  "env \<Rightarrow> string option \<Rightarrow> IMDBSelectResult option \<Rightarrow> ESP32IMDB \<Rightarrow> IMDBResult \<times> IMDBSelectResult option"
where
  "max_imdb e column result s =
     (if \<not> tableExists s then (IMDB_ERROR_NO_TABLE, result)
      else if column = None \<or> result = None then (IMDB_ERROR_INVALID_VALUE, result)
      else
        (let colIdx = findColumnIndex s (the column)
         in if colIdx < 0 then (IMDB_ERROR_COLUMN_NOT_FOUND, result)
            else
              (let ty = columnType s (nat colIdx) in
               if ty \<noteq> IMDB_TYPE_INT32 \<and> ty \<noteq> IMDB_TYPE_EPOCH \<and> ty \<noteq> IMDB_TYPE_FLOAT
               then (IMDB_ERROR_INVALID_TYPE, result)
               else extremum_result ty
                      (max_loop e ty (nat colIdx) (stored s) (False, 0x80000000, 0xFF7FFFFF))
                      (the result))))"

text \<open>
  The counting loop of \<open>top\<close> (\<open>validCount++\<close>), from reading number \<open>k\<close> of the clock on:
  it returns \<open>validCount\<close> and the number of the next reading.
\<close>

fun top_count :: "(nat \<Rightarrow> uint32_t) \<Rightarrow> IMDBRecord list \<Rightarrow> nat \<Rightarrow> nat \<Rightarrow> nat \<times> nat" where
  "top_count clock [] k n = (n, k)"
| "top_count clock (r # rs) k n =
     (if isValid r then
        (case isRecordExpired_at clock k (expiryMillis r) of
           (expired, k') \<Rightarrow> top_count clock rs k' (if \<not> expired then n + 1 else n))
      else top_count clock rs k n)"

text \<open>
  The fill loop of \<open>top\<close>, from reading number \<open>k\<close> of the clock on, which also stops when
  \<open>resultIdx\<close> reaches \<open>returnCount\<close>: it returns the rows written, in the order of the
  array.
\<close>

fun top_fill ::
  "env \<Rightarrow> (nat \<Rightarrow> uint32_t) \<Rightarrow> ESP32IMDB \<Rightarrow> IMDBRecord list \<Rightarrow> nat \<Rightarrow> int \<Rightarrow> int \<Rightarrow>
   IMDBSelectResult list list"
where
  "top_fill e clock s [] k resultIdx returnCount = []"
| "top_fill e clock s (r # rs) k resultIdx returnCount =
     (if resultIdx < returnCount then
        (if isValid r then
           (case isRecordExpired_at clock k (expiryMillis r) of
              (expired, k') \<Rightarrow>
                (if \<not> expired
                 then resultRow e s r # top_fill e clock s rs k' (resultIdx + 1) returnCount
                 else top_fill e clock s rs k' resultIdx returnCount))
         else top_fill e clock s rs k resultIdx returnCount)
      else [])"

text \<open>
  \<open>top(n, results, resultCount)\<close>.  The array has \<open>returnCount\<close> rows, a number taken from
  the first loop, and \<open>*resultCount\<close> is \<open>returnCount\<close>; the rows the fill loop does not
  reach keep what \<open>malloc\<close> returned.
\<close>

definition top_imdb ::
  "env \<Rightarrow> (nat \<Rightarrow> uint32_t) \<Rightarrow> int \<Rightarrow> IMDBSelectResult list option option \<Rightarrow> int option \<Rightarrow>
   ESP32IMDB \<Rightarrow> IMDBResult \<times> IMDBSelectResult list option option \<times> int option \<times> Heap"
where
  "top_imdb e clock n results resultCount s =
     (if \<not> tableExists s then (IMDB_ERROR_NO_TABLE, results, resultCount, heap s)
      else if results = None \<or> resultCount = None
      then (IMDB_ERROR_INVALID_VALUE, results, resultCount, heap s)
      else
        (case top_count clock (stored s) 0 0 of
           (vc, k) \<Rightarrow>
             (let validCount = int vc in
              if validCount = 0 then (IMDB_ERROR_NO_RECORDS, Some None, Some 0, heap s)
              else
                (let returnCount = (if n < validCount then n else validCount) in
                 case malloc e (heap s) of
                   (False, h1) \<Rightarrow> (IMDB_ERROR_OUT_OF_MEMORY, Some None, resultCount, h1)
                 | (True, h1) \<Rightarrow>
                     (let rows = top_fill e clock s (stored s) k 0 returnCount in
                      (IMDB_OK,
                       Some (Some (concat rows
                                   @ replicate ((nat returnCount - length rows) * unat (columnCount s))
                                       (uninitResult e))),
                       Some returnCount, h1))))))"

section \<open>Persistence (saveToFile, loadFromFile)\<close>

text \<open>
  Bytes and characters, and the little-endian layout of the ESP32 for the 16-bit and
  32-bit objects the source writes and reads through a \<open>uint8_t*\<close>.
\<close>

definition byte_of_char :: "char \<Rightarrow> uint8_t" where
  "byte_of_char c = of_nat (of_char c)"

definition char_of_byte :: "uint8_t \<Rightarrow> char" where
  "char_of_byte b = char_of (unat b)"

fun bytes_of_u32 :: "uint32_t \<Rightarrow> uint8_t list" where
  "bytes_of_u32 w = [ucast w, ucast (drop_bit 8 w), ucast (drop_bit 16 w), ucast (drop_bit 24 w)]"

fun u32_of_bytes :: "uint8_t list \<Rightarrow> uint32_t" where
  "u32_of_bytes [a, b, c, d] =
     ucast a OR push_bit 8 (ucast b) OR push_bit 16 (ucast c) OR push_bit 24 (ucast d)"
| "u32_of_bytes bs = 0"

fun bytes_of_u16 :: "uint16_t \<Rightarrow> uint8_t list" where
  "bytes_of_u16 w = [ucast w, ucast (drop_bit 8 w)]"

fun u16_of_bytes :: "uint8_t list \<Rightarrow> uint16_t" where
  "u16_of_bytes [a, b] = ucast a OR push_bit 8 (ucast b)"
| "u16_of_bytes bs = 0"

fun bytes_of_mac :: "mac \<Rightarrow> uint8_t list" where
  "bytes_of_mac (Mac a b c d e f) = [a, b, c, d, e, f]"

fun mac_of_bytes :: "uint8_t list \<Rightarrow> mac" where
  "mac_of_bytes [a, b, c, d, e, f] = Mac a b c d e f"
| "mac_of_bytes bs = Mac 0 0 0 0 0 0"

text \<open>\<open>(uint8_t)type\<close> and \<open>(IMDBDataType)typeValue\<close>.\<close>

fun byte_of_type :: "IMDBDataType \<Rightarrow> uint8_t" where
  "byte_of_type IMDB_TYPE_INT32 = 0"
| "byte_of_type IMDB_TYPE_MAC = 1"
| "byte_of_type IMDB_TYPE_STRING = 2"
| "byte_of_type IMDB_TYPE_EPOCH = 3"
| "byte_of_type IMDB_TYPE_BOOL = 4"
| "byte_of_type IMDB_TYPE_FLOAT = 5"
| "byte_of_type (IMDB_TYPE_OUT_OF_RANGE b) = b"

definition type_of_byte :: "uint8_t \<Rightarrow> IMDBDataType" where
  "type_of_byte b =
     (if b = 0 then IMDB_TYPE_INT32
      else if b = 1 then IMDB_TYPE_MAC
      else if b = 2 then IMDB_TYPE_STRING
      else if b = 3 then IMDB_TYPE_EPOCH
      else if b = 4 then IMDB_TYPE_BOOL
      else if b = 5 then IMDB_TYPE_FLOAT
      else IMDB_TYPE_OUT_OF_RANGE b)"

text \<open>
  SPIFFS: the files by name, and what the device answers: whether a file opens, whether
  the \<open>write\<close> that starts at a given offset of the file writes all its bytes, whether
  the \<open>rename\<close> succeeds.  A \<open>read\<close> of \<open>n\<close> bytes returns \<open>n\<close> exactly when \<open>n\<close> bytes
  are left.
\<close>

record SPIFFS =
  files :: "string \<Rightarrow> uint8_t list option"
  openOk :: "string \<Rightarrow> bool"
  writeOk :: "nat \<Rightarrow> bool"
  renameOk :: bool

text \<open>
  The calls of \<open>file.write\<close> in the order \<open>saveToFile\<close> makes them, each as the bytes it
  is given; \<open>write_all\<close> performs them and stops at the first that fails.
\<close>

fun write_all :: "SPIFFS \<Rightarrow> uint8_t list list \<Rightarrow> uint8_t list \<Rightarrow> uint8_t list option" where
  "write_all io [] written = Some written"
| "write_all io (chunk # chunks) written =
     (if writeOk io (length written) then write_all io chunks (written @ chunk) else None)"

definition header_writes :: "uint32_t \<Rightarrow> ESP32IMDB \<Rightarrow> uint8_t list list" where
  "header_writes saveMillis s =
     [map byte_of_char ''IMDB'', [1], [columnCount s],
      bytes_of_u16 (of_nat (recordCount s)), bytes_of_u32 saveMillis]"

text \<open>The 32 elements of the array \<open>name\<close> of a column.\<close>

definition name32 :: "string \<Rightarrow> string" where
  "name32 nm = take 32 (nm @ replicate 32 (CHR 0x00))"

definition schema_writes :: "ESP32IMDB \<Rightarrow> uint8_t list list" where
  "schema_writes s =
     concat (map (\<lambda>c. [map byte_of_char (name32 (name c)), [byte_of_type (type c)]]) (schema s))"

text \<open>The \<open>switch\<close> of the field loop of \<open>saveToFile\<close>.\<close>

definition field_writes :: "IMDBDataType \<Rightarrow> IMDBFieldValue \<Rightarrow> uint8_t list list" where
  "field_writes ty field =
     (case ty of
        IMDB_TYPE_INT32 \<Rightarrow> [bytes_of_u32 (get_int32Value field)]
      | IMDB_TYPE_FLOAT \<Rightarrow> [bytes_of_u32 (get_floatValue field)]
      | IMDB_TYPE_BOOL \<Rightarrow> [[if get_boolValue field then 1 else 0]]
      | IMDB_TYPE_MAC \<Rightarrow> [bytes_of_mac (get_macAddress field)]
      | IMDB_TYPE_EPOCH \<Rightarrow> [bytes_of_u32 (get_epochValue field)]
      | IMDB_TYPE_STRING \<Rightarrow>
          (let len = (case get_stringValue field of
                        None \<Rightarrow> 0
                      | Some str \<Rightarrow>
                          if strlen str > IMDB_MAX_STRING_LENGTH then IMDB_MAX_STRING_LENGTH
                          else strlen str)
           in [of_nat len] #
              (if len > 0
               then [map byte_of_char (take len (c_str (the (get_stringValue field))))]
               else []))
      | IMDB_TYPE_OUT_OF_RANGE b \<Rightarrow> [])"

definition record_writes :: "ESP32IMDB \<Rightarrow> IMDBRecord \<Rightarrow> uint8_t list list" where
  "record_writes s r =
     [[if isValid r then 1 else 0], bytes_of_u32 (expiryMillis r)]
     @ concat (map (\<lambda>j. field_writes (columnType s j) (getField r j)) [0..<unat (columnCount s)])"

text \<open>\<open>snprintf(tempFilename, 256, "%s.tmp", filename)\<close>.\<close>

definition tempFilename :: "string \<Rightarrow> string" where
  "tempFilename filename = take 255 (c_str filename @ ''.tmp'')"

text \<open>
  The purge loop of \<open>saveToFile\<close>, that of \<open>purgeExpiredRecords\<close> written out again, from
  reading number \<open>k\<close> of the clock on: it returns the number of the next reading as well.
\<close>

fun saveToFile_purge ::
  "(nat \<Rightarrow> uint32_t) \<Rightarrow> ESP32IMDB \<Rightarrow> IMDBRecord list \<Rightarrow> nat \<Rightarrow> Heap \<Rightarrow>
   IMDBRecord list \<times> nat \<times> Heap"
where
  "saveToFile_purge clock s [] k h = ([], k, h)"
| "saveToFile_purge clock s (r # rs) k h =
     (if isValid r then
        (case isRecordExpired_at clock k (expiryMillis r) of
           (expired, k1) \<Rightarrow>
             if expired then
               (case freeRecord s r h of
                  (r1, h1) \<Rightarrow>
                    (case saveToFile_purge clock s rs k1 h1 of
                       (rs', k', h') \<Rightarrow> (r1\<lparr>isValid := False\<rparr> # rs', k', h')))
             else
               (case saveToFile_purge clock s rs k1 h of (rs', k', h') \<Rightarrow> (r # rs', k', h')))
      else
        (case saveToFile_purge clock s rs k h of (rs', k', h') \<Rightarrow> (r # rs', k', h')))"

text \<open>
  \<open>saveToFile(filename)\<close>: the result code, the store and the files.  \<open>saveMillis\<close> is the
  reading of the clock that follows those of the purge.  The temporary file is removed
  on a failed write; the old snapshot is removed before the rename, which cannot succeed
  when \<open>snprintf\<close> has cut the temporary name down to the name of the snapshot.
\<close>

definition saveToFile ::
  "(nat \<Rightarrow> uint32_t) \<Rightarrow> string option \<Rightarrow> SPIFFS \<Rightarrow> ESP32IMDB \<Rightarrow> IMDBResult \<times> ESP32IMDB \<times> SPIFFS"
where
  "saveToFile clock filename io s =
     (if \<not> tableExists s then (IMDB_ERROR_NO_TABLE, s, io)
      else case filename of
        None \<Rightarrow> (IMDB_ERROR_INVALID_VALUE, s, io)
      | Some fname \<Rightarrow>
          (case saveToFile_purge clock s (stored s) 0 (heap s) of
             (rs', k, h') \<Rightarrow>
               (let s1 = compactRecords (s\<lparr>records := rs' @ spare s, heap := h'\<rparr>);
                    tmp = tempFilename fname
                in if recordCount s1 > 65535 then (IMDB_ERROR_INVALID_OPERATION, s1, io)
                   else if \<not> openOk io tmp then (IMDB_ERROR_FILE_OPEN, s1, io)
                   else
                     (let saveMillis = clock k in
                      case write_all io
                             (header_writes saveMillis s1 @ schema_writes s1
                              @ concat (map (record_writes s1) (stored s1))) [] of
                        None \<Rightarrow> (IMDB_ERROR_FILE_WRITE, s1, io\<lparr>files := (files io)(tmp := None)\<rparr>)
                      | Some written \<Rightarrow>
                          if tmp = c_str fname \<or> \<not> renameOk io
                          then (IMDB_ERROR_FILE_WRITE, s1,
                                io\<lparr>files := (files io)(c_str fname := None, tmp := None)\<rparr>)
                          else (IMDB_OK, s1,
                                io\<lparr>files := (files io)(tmp := None, c_str fname := Some written)\<rparr>)))))"

text \<open>\<open>file.read(buf, n)\<close>: the bytes read and the rest of the file, when \<open>n\<close> bytes are left.\<close>

definition read_bytes :: "nat \<Rightarrow> uint8_t list \<Rightarrow> (uint8_t list \<times> uint8_t list) option" where
  "read_bytes n bs = (if n \<le> length bs then Some (take n bs, drop n bs) else None)"

text \<open>
  The schema loop of \<open>loadFromFile\<close>: \<open>n\<close> columns are still to read.  \<open>None\<close> is a failed
  read.
\<close>

fun load_schema :: "nat \<Rightarrow> uint8_t list \<Rightarrow> (IMDBColumn list \<times> uint8_t list) option" where
  "load_schema 0 bs = Some ([], bs)"
| "load_schema (Suc n) bs =
     (case read_bytes 32 bs of
        None \<Rightarrow> None
      | Some (nm, bs1) \<Rightarrow>
          (case read_bytes 1 bs1 of
             None \<Rightarrow> None
           | Some (tv, bs2) \<Rightarrow>
               (case load_schema n bs2 of
                  None \<Rightarrow> None
                | Some (cs, bs3) \<Rightarrow>
                    Some (\<lparr>name = map char_of_byte nm, type = type_of_byte (hd tv)\<rparr> # cs, bs3))))"

text \<open>
  The \<open>switch\<close> of the field loop of \<open>loadFromFile\<close>: \<open>readError\<close>, the field, the rest of
  the file and the heap.
\<close>

definition load_field ::
  "env \<Rightarrow> IMDBDataType \<Rightarrow> IMDBFieldValue \<Rightarrow> uint8_t list \<Rightarrow> Heap \<Rightarrow>
   bool \<times> IMDBFieldValue \<times> uint8_t list \<times> Heap"
where
  "load_field e ty field bs h =
     (case ty of
        IMDB_TYPE_INT32 \<Rightarrow>
          (case read_bytes 4 bs of
             None \<Rightarrow> (True, field, bs, h)
           | Some (v, bs1) \<Rightarrow> (False, Int32Value (u32_of_bytes v), bs1, h))
      | IMDB_TYPE_FLOAT \<Rightarrow>
          (case read_bytes 4 bs of
             None \<Rightarrow> (True, field, bs, h)
           | Some (v, bs1) \<Rightarrow> (False, FloatValue (u32_of_bytes v), bs1, h))
      | IMDB_TYPE_BOOL \<Rightarrow>
          (case read_bytes 1 bs of
             None \<Rightarrow> (True, field, bs, h)
           | Some (v, bs1) \<Rightarrow> (False, BoolValue (hd v \<noteq> 0), bs1, h))
      | IMDB_TYPE_MAC \<Rightarrow>
          (case read_bytes 6 bs of
             None \<Rightarrow> (True, field, bs, h)
           | Some (v, bs1) \<Rightarrow> (False, MacAddress (mac_of_bytes v), bs1, h))
      | IMDB_TYPE_EPOCH \<Rightarrow>
          (case read_bytes 4 bs of
             None \<Rightarrow> (True, field, bs, h)
           | Some (v, bs1) \<Rightarrow> (False, EpochValue (u32_of_bytes v), bs1, h))
      | IMDB_TYPE_STRING \<Rightarrow>
          (case read_bytes 1 bs of
             None \<Rightarrow> (True, field, bs, h)
           | Some (lv, bs1) \<Rightarrow>
               (let len = unat (hd lv) in
                if len > IMDB_MAX_STRING_LENGTH then (True, field, bs1, h)
                else if len > 0 then
                  (case malloc e h of
                     (False, h1) \<Rightarrow> (True, StringValue None, bs1, h1)
                   | (True, h1) \<Rightarrow>
                       (case read_bytes len bs1 of
                          None \<Rightarrow> (True, StringValue None, bs1, free h1)
                        | Some (v, bs2) \<Rightarrow>
                            (False, StringValue (Some (map char_of_byte v)), bs2, h1)))
                else (False, StringValue None, bs1, h)))
      | IMDB_TYPE_OUT_OF_RANGE b \<Rightarrow> (False, field, bs, h))"

text \<open>The field loop of \<open>loadFromFile\<close>, from index \<open>j\<close>; it stops at the first read error.\<close>

fun load_fields ::
  "env \<Rightarrow> IMDBColumn list \<Rightarrow> nat \<Rightarrow> IMDBFieldValue list \<Rightarrow> uint8_t list \<Rightarrow> Heap \<Rightarrow>
   bool \<times> IMDBFieldValue list \<times> uint8_t list \<times> Heap"
where
  "load_fields e [] j fs bs h = (False, fs, bs, h)"
| "load_fields e (c # todo) j fs bs h =
     (case load_field e (type c) (fs ! j) bs h of
        (readError, f, bs1, h1) \<Rightarrow>
          if readError then (True, fs[j := f], bs1, h1)
          else load_fields e todo (j + 1) (fs[j := f]) bs1 h1)"

text \<open>
  The cleanup every failure inside the record loop of \<open>loadFromFile\<close> performs on the
  records read so far, the two arrays and the members.
\<close>

definition load_abort :: "ESP32IMDB \<Rightarrow> Heap \<Rightarrow> ESP32IMDB" where
  "load_abort s h =
     s\<lparr>records := [], columns := None, recordCount := 0, recordCapacity := 0,
       tableExists := False, heap := free (free (freeRecords_loop s (stored s) h))\<rparr>"

text \<open>
  The record loop of \<open>loadFromFile\<close>: \<open>n\<close> records are still to read, \<open>saveMillis\<close> is the time
  stamp of the header.
\<close>

fun load_records ::
  "env \<Rightarrow> uint32_t \<Rightarrow> nat \<Rightarrow> uint8_t list \<Rightarrow> ESP32IMDB \<Rightarrow> IMDBResult \<times> ESP32IMDB"
where
  "load_records e saveMillis 0 bs s = (IMDB_OK, s)"
| "load_records e saveMillis (Suc n) bs s =
     (case read_bytes 1 bs of
        None \<Rightarrow> (IMDB_ERROR_FILE_READ, load_abort s (heap s))
      | Some (vb, bs1) \<Rightarrow>
          (case read_bytes 4 bs1 of
             None \<Rightarrow> (IMDB_ERROR_FILE_READ, load_abort s (heap s))
           | Some (eb, bs2) \<Rightarrow>
               (let savedExpiryMillis = u32_of_bytes eb;
                    expiry = (if savedExpiryMillis = 0 then 0
                              else millis e + (savedExpiryMillis - saveMillis))
                in if \<not> checkHeapLimit e (heap s)
                   then (IMDB_ERROR_HEAP_LIMIT, load_abort s (heap s))
                   else
                     (case malloc e (heap s) of
                        (False, h1) \<Rightarrow> (IMDB_ERROR_OUT_OF_MEMORY, load_abort s h1)
                      | (True, h1) \<Rightarrow>
                          (case load_fields e (schema s) 0
                                  (map (\<lambda>c. if type c = IMDB_TYPE_STRING then StringValue None
                                            else uninitField e) (schema s)) bs2 h1 of
                             (readError, fs, bs3, h2) \<Rightarrow>
                               if readError
                               then (IMDB_ERROR_FILE_READ,
                                     load_abort s (free (free_strings (schema s) fs h2)))
                               else load_records e saveMillis n bs3
                                      (s\<lparr>records := (records s)[recordCount s :=
                                             \<lparr>rfields = Some fs, expiryMillis = expiry,
                                              isValid = (hd vb \<noteq> 0)\<rparr>],
                                         recordCount := recordCount s + 1, heap := h2\<rparr>))))))"

text \<open>
  \<open>loadFromFile\<close> once the header is read: the schema, the record array and the records.
\<close>

definition load_body ::
  "env \<Rightarrow> uint8_t \<Rightarrow> uint16_t \<Rightarrow> uint32_t \<Rightarrow> uint8_t list \<Rightarrow> ESP32IMDB \<Rightarrow> IMDBResult \<times> ESP32IMDB"
where
  "load_body e cnt recCount saveMillis bs s =
     (if \<not> checkHeapLimit e (heap s) then (IMDB_ERROR_HEAP_LIMIT, s)
      else
        (case malloc e (heap s) of
           (False, h1) \<Rightarrow> (IMDB_ERROR_OUT_OF_MEMORY, s\<lparr>columns := None, heap := h1\<rparr>)
         | (True, h1) \<Rightarrow>
             (case load_schema (unat cnt) bs of
                None \<Rightarrow> (IMDB_ERROR_FILE_READ, s\<lparr>columns := None, heap := free h1\<rparr>)
              | Some (cs, bs1) \<Rightarrow>
                  (let s1 = s\<lparr>columns := Some cs, columnCount := cnt, tableExists := True, heap := h1\<rparr>
                   in if \<not> checkHeapLimit e h1
                      then (IMDB_ERROR_HEAP_LIMIT,
                            s1\<lparr>columns := None, tableExists := False, heap := free h1\<rparr>)
                      else
                        (let s2 = s1\<lparr>recordCapacity := (if unat recCount > 10 then unat recCount else 10)\<rparr>
                         in case malloc e h1 of
                              (False, h2) \<Rightarrow>
                                (IMDB_ERROR_OUT_OF_MEMORY,
                                 s2\<lparr>records := [], columns := None, tableExists := False,
                                    heap := free h2\<rparr>)
                            | (True, h2) \<Rightarrow>
                                load_records e saveMillis (unat recCount) bs1
                                  (s2\<lparr>records := replicate (recordCapacity s2) (uninitRecord e),
                                     recordCount := 0, heap := h2\<rparr>))))))"

definition loadFromFile ::
  "env \<Rightarrow> string option \<Rightarrow> SPIFFS \<Rightarrow> ESP32IMDB \<Rightarrow> IMDBResult \<times> ESP32IMDB"
where
  "loadFromFile e filename io s =
     (case filename of
        None \<Rightarrow> (IMDB_ERROR_INVALID_VALUE, s)
      | Some fname \<Rightarrow>
          if tableExists s then (IMDB_ERROR_TABLE_EXISTS, s)
          else
            (case files io (c_str fname) of
               None \<Rightarrow> (IMDB_ERROR_FILE_OPEN, s)
             | Some bs \<Rightarrow>
                 if \<not> openOk io (c_str fname) then (IMDB_ERROR_FILE_OPEN, s)
                 else
                   (case read_bytes 4 bs of
                      None \<Rightarrow> (IMDB_ERROR_CORRUPT_FILE, s)
                    | Some (magic, bs1) \<Rightarrow>
                        if magic \<noteq> map byte_of_char ''IMDB'' then (IMDB_ERROR_CORRUPT_FILE, s)
                        else
                          (case read_bytes 1 bs1 of
                             None \<Rightarrow> (IMDB_ERROR_CORRUPT_FILE, s)
                           | Some (version, bs2) \<Rightarrow>
                               if hd version \<noteq> 1 then (IMDB_ERROR_CORRUPT_FILE, s)
                               else
                                 (case read_bytes 1 bs2 of
                                    None \<Rightarrow> (IMDB_ERROR_CORRUPT_FILE, s)
                                  | Some (cc, bs3) \<Rightarrow>
                                      (case read_bytes 2 bs3 of
                                         None \<Rightarrow> (IMDB_ERROR_CORRUPT_FILE, s)
                                       | Some (rc, bs4) \<Rightarrow>
                                           (case read_bytes 4 bs4 of
                                              None \<Rightarrow> (IMDB_ERROR_CORRUPT_FILE, s)
                                            | Some (sm, bs5) \<Rightarrow>
                                                load_body e (hd cc) (u16_of_bytes rc)
                                                  (u32_of_bytes sm) bs5 s)))))))"

section \<open>Example stores\<close>

text \<open>
  A device whose clock reads 150, with heap to spare and every allocation granted.  The
  examples have no \<open>float\<close> column; the FPU members are stand-ins.
\<close>

definition demo_env :: env where
  "demo_env =
     \<lparr>millis = 150, getFreeHeap = (\<lambda>k. 100000), mallocOk = (\<lambda>k. True),
      floatEq = (\<lambda>a b. a = b), floatLt = (\<lambda>a b. sint a < sint b),
      floatLe = (\<lambda>a b. sint a \<le> sint b),
      floatAdd = (\<lambda>a b. a + b), floatSub = (\<lambda>a b. a - b), floatMul = (\<lambda>a b. a * b),
      floatDiv = (\<lambda>a b. a), floatOfInt = (\<lambda>a. a), intOfFloat = (\<lambda>a. a),
      uninitRecord = \<lparr>rfields = None, expiryMillis = 0, isValid = False\<rparr>,
      uninitField = Int32Value 0,
      uninitResult = \<lparr>int32Value = 0, macAddress = Mac 0 0 0 0 0 0, stringValue = [],
                      epochValue = 0, boolValue = False, floatValue = 0,
                      resultType = IMDB_TYPE_INT32, hasValue = False\<rparr>\<rparr>"

definition demo_schema :: "IMDBColumn list" where
  "demo_schema =
     [\<lparr>name = ''id'', type = IMDB_TYPE_INT32\<rparr>,
      \<lparr>name = ''name'', type = IMDB_TYPE_STRING\<rparr>,
      \<lparr>name = ''seen'', type = IMDB_TYPE_EPOCH\<rparr>]"

definition demo_record :: "int32_t \<Rightarrow> string \<Rightarrow> uint32_t \<Rightarrow> uint32_t \<Rightarrow> IMDBRecord" where
  "demo_record i nm seen expiry =
     \<lparr>rfields = Some [Int32Value i, StringValue (Some nm), EpochValue seen],
      expiryMillis = expiry, isValid = True\<rparr>"

text \<open>
  Three records and one spare slot.  The second record expired at 100; its epoch is
  \<open>2^31\<close>.
\<close>

definition demo_store :: ESP32IMDB where
  "demo_store =
     \<lparr>columns = Some demo_schema, columnCount = 3,
      records = [demo_record 1 ''a'' 1 0, demo_record 2 ''b'' 0x80000000 100,
                 demo_record 3 ''c'' 7 0, uninitRecord demo_env],
      recordCount = 3, recordCapacity = 4, tableExists = True,
      heap = \<lparr>mallocCalls = 8, liveBlocks = 8\<rparr>\<rparr>"

text \<open>The same store with its second record deleted and not yet compacted.\<close>

definition demo_store_gap :: ESP32IMDB where
  "demo_store_gap =
     demo_store\<lparr>records := [demo_record 1 ''a'' 1 0,
                              \<lparr>rfields = None, expiryMillis = 100, isValid = False\<rparr>,
                              demo_record 3 ''c'' 7 0, uninitRecord demo_env]\<rparr>"

text \<open>Two records, never expiring, with the epochs 1 and \<open>2^31\<close>.\<close>

definition demo_store_epochs :: ESP32IMDB where
  "demo_store_epochs =
     demo_store\<lparr>records := [demo_record 1 ''a'' 1 0, demo_record 2 ''b'' 0x80000000 0,
                             uninitRecord demo_env, uninitRecord demo_env],
                 recordCount := 2\<rparr>"

text \<open>
  A clock that reads 99 at the first call of \<open>millis()\<close> during an operation and 100 at
  the second (one more at every call): the second record of the example store, not yet
  expired at the first reading, is expired at the second.
\<close>

definition demo_clock :: "nat \<Rightarrow> uint32_t" where
  "demo_clock k = 99 + of_nat k"

text \<open>
  A file system without files, on which every operation succeeds; the example table as
  \<open>createTable\<close> leaves it in a new store; that store after the insertion of
  \<open>(1, "", 7)\<close> without a time to live; and the new store into which the file saved from
  it is loaded.
\<close>

definition demo_fs :: SPIFFS where
  "demo_fs = \<lparr>files = (\<lambda>f. None), openOk = (\<lambda>f. True), writeOk = (\<lambda>k. True), renameOk = True\<rparr>"

definition demo_table :: ESP32IMDB where
  "demo_table = snd (createTable demo_env (Some (\<lambda>i. demo_schema ! i)) 3 newESP32IMDB)"

definition demo_saved :: ESP32IMDB where
  "demo_saved =
     snd (insert_imdb demo_env
            (Some (\<lambda>i. [Some (Int32Value 1), Some (StringValue (Some '''')), Some (EpochValue 7)] ! i))
            0 demo_table)"

definition demo_loaded :: ESP32IMDB where
  "demo_loaded =
     snd (loadFromFile demo_env (Some ''/db'')
            (snd (snd (saveToFile (steady demo_env) (Some ''/db'') demo_fs demo_saved)))
            newESP32IMDB)"

section \<open>Notions used in the statements\<close>

text \<open>
  The values \<open>min\<close> and \<open>max\<close> go through for an integer or epoch column: those of the
  live records, in store order, as the 32-bit objects the loops compare.
\<close>

definition intColumn :: "env \<Rightarrow> IMDBDataType \<Rightarrow> nat \<Rightarrow> IMDBRecord list \<Rightarrow> int32_t list" where
  "intColumn e ty ci rs =
     map (\<lambda>r. if ty = IMDB_TYPE_INT32 then get_int32Value (getField r ci)
              else get_epochValue (getField r ci)) (filter (live e) rs)"

text \<open>
  The store with the records that are not live (deleted, or expired at the time of the
  call) taken out of the array.
\<close>

definition without_dead :: "env \<Rightarrow> ESP32IMDB \<Rightarrow> ESP32IMDB" where
  "without_dead e s =
     s\<lparr>records := filter (live e) (stored s), recordCount := length (filter (live e) (stored s))\<rparr>"

text \<open>The same device with no free heap at all.\<close>

definition demo_env_low :: env where
  "demo_env_low = demo_env\<lparr>getFreeHeap := (\<lambda>k. 0)\<rparr>"

text \<open>
  The strings a field array owns under a list of columns: the non-null string pointers in
  string columns, which are the buffers \<open>free_strings\<close> frees.
\<close>

definition ownedStrings :: "IMDBColumn list \<Rightarrow> IMDBFieldValue list \<Rightarrow> nat" where
  "ownedStrings cs fs =
     length (filter (\<lambda>(c, f). type c = IMDB_TYPE_STRING \<and> get_stringValue f \<noteq> None) (zip cs fs))"

text \<open>
  The types of the enumeration, and the field values of a type: the member the type
  names, a string being null or a C string of at most 255 characters.
\<close>

definition validType :: "IMDBDataType \<Rightarrow> bool" where
  "validType t = (case t of IMDB_TYPE_OUT_OF_RANGE b \<Rightarrow> False | _ \<Rightarrow> True)"

definition typedField :: "IMDBDataType \<Rightarrow> IMDBFieldValue \<Rightarrow> bool" where
  "typedField t f =
     (case t of
        IMDB_TYPE_INT32 \<Rightarrow> f = Int32Value (get_int32Value f)
      | IMDB_TYPE_MAC \<Rightarrow> f = MacAddress (get_macAddress f)
      | IMDB_TYPE_STRING \<Rightarrow>
          f = StringValue (get_stringValue f)
          \<and> (case get_stringValue f of
                None \<Rightarrow> True
              | Some str \<Rightarrow> c_str str = str \<and> length str \<le> IMDB_MAX_STRING_LENGTH)
      | IMDB_TYPE_EPOCH \<Rightarrow> f = EpochValue (get_epochValue f)
      | IMDB_TYPE_BOOL \<Rightarrow> f = BoolValue (get_boolValue f)
      | IMDB_TYPE_FLOAT \<Rightarrow> f = FloatValue (get_floatValue f)
      | IMDB_TYPE_OUT_OF_RANGE b \<Rightarrow> False)"

text \<open>
  What \<open>loadFromFile\<close> makes of a field and of a record that \<open>saveToFile\<close> wrote: the empty
  string comes back as the null pointer, and an expiry is moved from the clock of the
  save, \<open>saveMillis\<close>, to the clock of the load.
\<close>

definition reloadedField :: "IMDBFieldValue \<Rightarrow> IMDBFieldValue" where
  "reloadedField f = (if f = StringValue (Some []) then StringValue None else f)"

definition reloadedRecord :: "uint32_t \<Rightarrow> uint32_t \<Rightarrow> IMDBRecord \<Rightarrow> IMDBRecord" where
  "reloadedRecord saveMillis currentMillis r =
     \<lparr>rfields = map_option (map reloadedField) (rfields r),
      expiryMillis = (if expiryMillis r = 0 then 0
                      else currentMillis + (expiryMillis r - saveMillis)),
      isValid = isValid r\<rparr>"

section \<open>Properties of the expiry predicate\<close>

text \<open>
  C7.  A record whose expiry field is 0 is never expired; for every other expiry \<open>e\<close> and
  every clock value, the record is expired exactly when the wrapping 32-bit difference
  \<open>now - e\<close>, read as a signed 32-bit integer, is at least 0.
\<close>

theorem isRecordExpired_iff:
  "isRecordExpired e expiry = (expiry \<noteq> 0 \<and> 0 \<le> sint (millis e - expiry))"
  by (simp add: isRecordExpired_def)

section \<open>Compaction and deletion keep the order of the survivors\<close>

lemma compact_loop_spec:
  "writeIndex \<le> readIndex \<Longrightarrow> n \<le> length rs \<Longrightarrow>
   compact_loop rs n readIndex writeIndex = (rs', w) \<Longrightarrow>
   length rs' = length rs \<and>
   w = writeIndex + length (filter isValid (drop readIndex (take n rs))) \<and>
   take w rs' = take writeIndex rs @ filter isValid (drop readIndex (take n rs))"
proof (induction rs n readIndex writeIndex arbitrary: rs' w rule: compact_loop.induct)
  case (1 rs n readIndex writeIndex)
  show ?case
  proof (cases "readIndex < n")
    case False
    with "1.prems" show ?thesis
      by (simp add: compact_loop.simps)
  next
    case rn: True
    then have rlen: "readIndex < length rs" using "1.prems" by simp
    have dr: "drop readIndex (take n rs) = rs ! readIndex # drop (Suc readIndex) (take n rs)"
      using rn rlen by (simp add: Cons_nth_drop_Suc [symmetric])
    show ?thesis
    proof (cases "isValid (rs ! readIndex)")
      case False
      then have "compact_loop rs n (readIndex + 1) writeIndex = (rs', w)"
        using "1.prems"(3) rn by (simp add: compact_loop.simps [of rs n readIndex])
      from "1.IH"(3) [OF rn False _ _ this] "1.prems" False dr
      show ?thesis by auto
    next
      case v: True
      show ?thesis
      proof (cases "writeIndex = readIndex")
        case True
        then have "compact_loop rs n (readIndex + 1) (writeIndex + 1) = (rs', w)"
          using "1.prems"(3) rn v by (simp add: compact_loop.simps [of rs n readIndex])
        from "1.IH"(2) [OF rn v _ _ _ this] True "1.prems" v dr rlen
        show ?thesis by (auto simp add: take_Suc_conv_app_nth)
      next
        case ne: False
        then have wr: "writeIndex < readIndex" using "1.prems" by simp
        define rs1 where "rs1 = rs[writeIndex := rs ! readIndex]"
        define rs2 where "rs2 = rs1[readIndex := (rs1 ! readIndex)\<lparr>rfields := None\<rparr>]"
        define rs3 where "rs3 = rs2[readIndex := (rs2 ! readIndex)\<lparr>isValid := False\<rparr>]"
        have step: "compact_loop rs3 n (readIndex + 1) (writeIndex + 1) = (rs', w)"
          using "1.prems"(3) rn v ne
          by (simp add: compact_loop.simps [of rs n readIndex] rs1_def rs2_def rs3_def Let_def)
        have len3: "length rs3 = length rs" by (simp add: rs1_def rs2_def rs3_def)
        have "writeIndex + 1 \<le> readIndex + 1" "n \<le> length rs3"
          using wr "1.prems"(2) len3 by simp_all
        from "1.IH"(1) [OF rn v ne rs1_def rs2_def rs3_def this step]
        have ih: "length rs' = length rs3"
          "w = (writeIndex + 1) + length (filter isValid (drop (readIndex + 1) (take n rs3)))"
          "take w rs' = take (writeIndex + 1) rs3 @ filter isValid (drop (readIndex + 1) (take n rs3))"
          by blast+
        have d3: "drop (readIndex + 1) (take n rs3) = drop (Suc readIndex) (take n rs)"
          using wr by (simp add: rs1_def rs2_def rs3_def take_update_swap drop_update_cancel)
        have t3: "take (writeIndex + 1) rs3 = take writeIndex rs @ [rs ! readIndex]"
          using wr rlen
          by (simp add: rs1_def rs2_def rs3_def take_Suc_conv_app_nth take_update_cancel)
        show ?thesis using ih(1,2) len3 dr v unfolding ih(3) d3 t3 by simp
      qed
    qed
  qed
qed

lemma compactRecords_stored:
  assumes "recordCount s \<le> length (records s)"
  shows "stored (compactRecords s) = filter isValid (stored s)"
    and "recordCount (compactRecords s) = length (filter isValid (stored s))"
    and "length (records (compactRecords s)) = length (records s)"
proof -
  obtain rs' w where c: "compact_loop (records s) (recordCount s) 0 0 = (rs', w)"
    by (cases "compact_loop (records s) (recordCount s) 0 0")
  from compact_loop_spec [OF _ assms c]
  have "length rs' = length (records s)"
    "w = length (filter isValid (take (recordCount s) (records s)))"
    "take w rs' = filter isValid (take (recordCount s) (records s))"
    by auto
  then show "stored (compactRecords s) = filter isValid (stored s)"
    and "recordCount (compactRecords s) = length (filter isValid (stored s))"
    and "length (records (compactRecords s)) = length (records s)"
    using c by (simp_all add: compactRecords_def stored_def)
qed

lemma freeRecord_isValid: "isValid (fst (freeRecord s r h)) = isValid r"
  by (simp add: freeRecord_def Let_def split: option.splits)

lemma delete_loop_spec:
  "delete_loop e s wi wv rs d h = (rs', d', h') \<Longrightarrow>
   length rs' = length rs \<and>
   filter isValid rs' = filter (\<lambda>r. isValid r \<and> \<not> matches e s wi wv r) rs \<and>
   d' = (d \<or> (\<exists>r \<in> set rs. isValid r \<and> matches e s wi wv r))"
proof (induction rs arbitrary: d h rs' d' h')
  case Nil
  then show ?case by simp
next
  case (Cons r rs)
  show ?case
  proof (cases "isValid r \<and> matches e s wi wv r")
    case True
    obtain r1 h1 where f: "freeRecord s r h = (r1, h1)" by (cases "freeRecord s r h")
    obtain rs2 d2 h2 where l: "delete_loop e s wi wv rs True h1 = (rs2, d2, h2)"
      by (cases "delete_loop e s wi wv rs True h1")
    from Cons.prems True f l have "rs' = r1\<lparr>isValid := False\<rparr> # rs2" "d' = d2" by simp_all
    with Cons.IH [OF l] True show ?thesis by auto
  next
    case False
    obtain rs2 d2 h2 where l: "delete_loop e s wi wv rs d h = (rs2, d2, h2)"
      by (cases "delete_loop e s wi wv rs d h")
    from Cons.prems False l have "rs' = r # rs2" "d' = d2" by (auto split: if_splits)
    with Cons.IH [OF l] False show ?thesis by auto
  qed
qed

lemma filter_all_but_one:
  assumes "k < length xs" and "\<And>i. i < length xs \<Longrightarrow> P (xs ! i) = (i \<noteq> k)"
  shows "filter P xs = take k xs @ drop (Suc k) xs"
proof -
  have a: "filter P (take k xs) = take k xs"
  proof (rule filter_True)
    show "\<forall>x\<in>set (take k xs). P x"
    proof
      fix x assume "x \<in> set (take k xs)"
      then obtain i where "i < length (take k xs)" "x = take k xs ! i"
        by (auto simp: in_set_conv_nth)
      then show "P x" using assms by simp
    qed
  qed
  have b: "filter P (drop (Suc k) xs) = drop (Suc k) xs"
  proof (rule filter_True)
    show "\<forall>x\<in>set (drop (Suc k) xs). P x"
    proof
      fix x assume "x \<in> set (drop (Suc k) xs)"
      then obtain i where "i < length (drop (Suc k) xs)" "x = drop (Suc k) xs ! i"
        by (auto simp: in_set_conv_nth)
      then show "P x" using assms by simp
    qed
  qed
  have c: "\<not> P (xs ! k)" using assms by simp
  have "filter P xs = filter P (take k xs @ xs ! k # drop (Suc k) xs)"
    using assms(1) by (simp add: id_take_nth_drop [symmetric])
  then show ?thesis using a b c by simp
qed

lemma deleteRecords_stored:
  assumes "recordCount s \<le> length (records s)" "tableExists s"
    and "findColumnIndex s wc = int wi"
    and "\<exists>r \<in> set (stored s). isValid r \<and> matches e s wi (Some wv) r"
  shows "fst (deleteRecords e (Some wc) (Some wv) s) = IMDB_OK"
    and "stored (snd (deleteRecords e (Some wc) (Some wv) s)) =
         filter (\<lambda>r. isValid r \<and> \<not> matches e s wi (Some wv) r) (stored s)"
    and "recordCount (snd (deleteRecords e (Some wc) (Some wv) s)) =
         length (filter (\<lambda>r. isValid r \<and> \<not> matches e s wi (Some wv) r) (stored s))"
proof -
  obtain rs' d' h' where l: "delete_loop e s wi (Some wv) (stored s) False (heap s) = (rs', d', h')"
    by (cases "delete_loop e s wi (Some wv) (stored s) False (heap s)")
  from delete_loop_spec [OF l] assms(4)
  have len: "length rs' = length (stored s)"
    and fl: "filter isValid rs' = filter (\<lambda>r. isValid r \<and> \<not> matches e s wi (Some wv) r) (stored s)"
    and d: "d'" by simp_all
  define s1 where "s1 = s\<lparr>records := rs' @ spare s, heap := h'\<rparr>"
  have len1: "length rs' = recordCount s" using len assms(1) by (simp add: stored_def)
  have st1: "stored s1 = rs'" using len1 by (simp add: s1_def stored_def)
  have rc1: "recordCount s1 \<le> length (records s1)" using len1 by (simp add: s1_def)
  have res: "deleteRecords e (Some wc) (Some wv) s = (IMDB_OK, compactRecords s1)"
    using assms(2,3) l d by (simp add: deleteRecords_def s1_def Let_def)
  show "fst (deleteRecords e (Some wc) (Some wv) s) = IMDB_OK" using res by simp
  show "stored (snd (deleteRecords e (Some wc) (Some wv) s)) =
         filter (\<lambda>r. isValid r \<and> \<not> matches e s wi (Some wv) r) (stored s)"
    using res compactRecords_stored(1) [OF rc1] st1 fl by simp
  show "recordCount (snd (deleteRecords e (Some wc) (Some wv) s)) =
         length (filter (\<lambda>r. isValid r \<and> \<not> matches e s wi (Some wv) r) (stored s))"
    using res compactRecords_stored(2) [OF rc1] st1 fl by simp
qed

text \<open>
  C6.  Compaction keeps the valid records, all of them, in the order they had, and the
  record count becomes their number.  In particular, when all \<open>n\<close> stored records are
  valid and the where condition of \<open>deleteRecords\<close> holds for the record at index \<open>k\<close>
  only, the call leaves the other \<open>n - 1\<close> records in their original order.
\<close>

theorem compactRecords_preserves_order:
  assumes "recordCount s \<le> length (records s)"
  shows "stored (compactRecords s) = filter isValid (stored s)
       \<and> recordCount (compactRecords s) = length (filter isValid (stored s))
       \<and> (\<forall>e wc wi wv k.
            tableExists s \<and> findColumnIndex s wc = int wi \<and> k < recordCount s
            \<and> (\<forall>i < recordCount s. isValid (stored s ! i)
                   \<and> matches e s wi (Some wv) (stored s ! i) = (i = k))
            \<longrightarrow> fst (deleteRecords e (Some wc) (Some wv) s) = IMDB_OK
              \<and> stored (snd (deleteRecords e (Some wc) (Some wv) s))
                  = take k (stored s) @ drop (Suc k) (stored s)
              \<and> recordCount (snd (deleteRecords e (Some wc) (Some wv) s)) = recordCount s - 1)"
proof (intro conjI allI impI)
  show "stored (compactRecords s) = filter isValid (stored s)"
    by (rule compactRecords_stored(1) [OF assms])
  show "recordCount (compactRecords s) = length (filter isValid (stored s))"
    by (rule compactRecords_stored(2) [OF assms])
next
  fix e wc wi wv k
  assume a: "tableExists s \<and> findColumnIndex s wc = int wi \<and> k < recordCount s
            \<and> (\<forall>i < recordCount s. isValid (stored s ! i)
                   \<and> matches e s wi (Some wv) (stored s ! i) = (i = k))"
  have len: "length (stored s) = recordCount s" using assms by (simp add: stored_def)
  have k: "k < length (stored s)" using a len by simp
  have ex: "\<exists>r \<in> set (stored s). isValid r \<and> matches e s wi (Some wv) r"
    using a k len by (intro bexI [of _ "stored s ! k"]) auto
  have fl: "filter (\<lambda>r. isValid r \<and> \<not> matches e s wi (Some wv) r) (stored s)
            = take k (stored s) @ drop (Suc k) (stored s)"
    by (rule filter_all_but_one [OF k]) (use a len in auto)
  from a have te: "tableExists s" and fc: "findColumnIndex s wc = int wi" by simp_all
  show "fst (deleteRecords e (Some wc) (Some wv) s) = IMDB_OK"
    by (rule deleteRecords_stored(1) [OF assms te fc ex])
  show "stored (snd (deleteRecords e (Some wc) (Some wv) s))
                  = take k (stored s) @ drop (Suc k) (stored s)"
    using deleteRecords_stored(2) [OF assms te fc ex] fl by simp
  show "recordCount (snd (deleteRecords e (Some wc) (Some wv) s)) = recordCount s - 1"
    using deleteRecords_stored(3) [OF assms te fc ex] fl k len by simp
qed

lemma stored_demo_store:
  "stored demo_store =
     [demo_record 1 ''a'' 1 0, demo_record 2 ''b'' 0x80000000 100, demo_record 3 ''c'' 7 0]"
  by (simp add: stored_def demo_store_def)

lemma demo_record_sel:
  "isValid (demo_record i nm sn ex)"
  "expiryMillis (demo_record i nm sn ex) = ex"
  "rfields (demo_record i nm sn ex) = Some [Int32Value i, StringValue (Some nm), EpochValue sn]"
  by (simp_all add: demo_record_def)

lemma schema_demo_store: "schema demo_store = demo_schema"
  by (simp add: schema_def demo_store_def demo_schema_def)

lemma findColumnIndex_demo_store:
  "findColumnIndex demo_store ''id'' = 0"
  "findColumnIndex demo_store ''name'' = 1"
  "findColumnIndex demo_store ''seen'' = 2"
  by (simp_all add: findColumnIndex_def schema_demo_store demo_schema_def strcmp_eq_def c_str_def)

lemma columnType_demo_store:
  "columnType demo_store 0 = IMDB_TYPE_INT32"
  "columnType demo_store (Suc 0) = IMDB_TYPE_STRING"
  "columnType demo_store 2 = IMDB_TYPE_EPOCH"
  by (simp_all add: columnType_def schema_demo_store demo_schema_def)

lemma matches_demo_id:
  "matches demo_env demo_store 0 (Some (Int32Value v)) (demo_record i nm sn ex) = (i = v)"
  by (simp add: matches_def columnType_demo_store fieldAt_def demo_record_def)

theorem compactRecords_preserves_order_witness:
  "recordCount demo_store_gap \<le> length (records demo_store_gap)
   \<and> stored (compactRecords demo_store_gap) = [demo_record 1 ''a'' 1 0, demo_record 3 ''c'' 7 0]
   \<and> recordCount (compactRecords demo_store_gap) = 2
   \<and> fst (deleteRecords demo_env (Some ''id'') (Some (Int32Value 2)) demo_store) = IMDB_OK
   \<and> stored (snd (deleteRecords demo_env (Some ''id'') (Some (Int32Value 2)) demo_store))
       = [demo_record 1 ''a'' 1 0, demo_record 3 ''c'' 7 0]"
proof -
  have g: "recordCount demo_store_gap \<le> length (records demo_store_gap)"
    by (simp add: demo_store_gap_def demo_store_def)
  have sg: "stored demo_store_gap =
      [demo_record 1 ''a'' 1 0, \<lparr>rfields = None, expiryMillis = 100, isValid = False\<rparr>,
       demo_record 3 ''c'' 7 0]"
    by (simp add: stored_def demo_store_gap_def demo_store_def)
  have h: "recordCount demo_store \<le> length (records demo_store)"
    by (simp add: demo_store_def)
  have a: "tableExists demo_store \<and> findColumnIndex demo_store ''id'' = int 0
            \<and> 1 < recordCount demo_store
            \<and> (\<forall>i < recordCount demo_store. isValid (stored demo_store ! i)
                   \<and> matches demo_env demo_store 0 (Some (Int32Value 2)) (stored demo_store ! i)
                       = (i = 1))"
  proof -
    have i3: "\<And>i::nat. i < 3 \<Longrightarrow> i = 0 \<or> i = 1 \<or> i = 2" by arith
    have rc: "recordCount demo_store = 3" and te: "tableExists demo_store"
      by (simp_all add: demo_store_def)
    have "isValid (stored demo_store ! i)
           \<and> matches demo_env demo_store 0 (Some (Int32Value 2)) (stored demo_store ! i) = (i = 1)"
      if "i < 3" for i
      using i3 [OF that]
      by (auto simp add: stored_demo_store matches_demo_id) (simp_all add: demo_record_def)
    then show ?thesis using rc te findColumnIndex_demo_store(1) by simp
  qed
  from compactRecords_preserves_order [OF g]
  have "stored (compactRecords demo_store_gap) = filter isValid (stored demo_store_gap)"
    and "recordCount (compactRecords demo_store_gap) = length (filter isValid (stored demo_store_gap))"
    by blast+
  moreover from compactRecords_preserves_order [OF h] a
  have "fst (deleteRecords demo_env (Some ''id'') (Some (Int32Value 2)) demo_store) = IMDB_OK"
    and "stored (snd (deleteRecords demo_env (Some ''id'') (Some (Int32Value 2)) demo_store))
          = take 1 (stored demo_store) @ drop (Suc 1) (stored demo_store)"
    by blast+
  ultimately show ?thesis using g by (simp add: stored_demo_store sg demo_record_def)
qed

section \<open>The scans as filters\<close>

lemma count_loop_filter:
  "count_loop e rs cnt = cnt + of_nat (length (filter (live e) rs))"
  by (induction rs arbitrary: cnt) (simp_all add: live_def)

lemma countWhere_loop_filter:
  "countWhere_loop e s wi wv rs cnt =
     cnt + of_nat (length (filter (\<lambda>r. live e r \<and> matches e s wi wv r) rs))"
  by (induction rs arbitrary: cnt) (simp_all add: live_def)

section \<open>Counting without a table\<close>

text \<open>
  C10.  \<open>count\<close> returns 0 when no table exists; \<open>countWhere\<close> returns 0 when no table
  exists, when either argument is null and when the where column is not found.  None of
  these is an error code: a table without a live record, or without a live record that
  matches, gives the same 0.
\<close>

theorem count_zero_is_not_an_error:
  "(\<not> tableExists s \<longrightarrow> count e s = 0)
   \<and> (\<not> tableExists s \<or> whereColumn = None \<or> whereValue = None
        \<or> findColumnIndex s (the whereColumn) < 0
      \<longrightarrow> countWhere e whereColumn whereValue s = 0)
   \<and> (tableExists s \<and> (\<forall>r \<in> set (stored s). \<not> live e r) \<longrightarrow> count e s = 0)
   \<and> (tableExists s \<and> whereColumn \<noteq> None \<and> whereValue \<noteq> None
        \<and> 0 \<le> findColumnIndex s (the whereColumn)
        \<and> (\<forall>r \<in> set (stored s).
              \<not> (live e r \<and> matches e s (nat (findColumnIndex s (the whereColumn))) whereValue r))
      \<longrightarrow> countWhere e whereColumn whereValue s = 0)"
proof (intro conjI impI)
  show "count e s = 0" if "\<not> tableExists s" using that by (simp add: count_def)
  show "countWhere e whereColumn whereValue s = 0"
    if "\<not> tableExists s \<or> whereColumn = None \<or> whereValue = None
        \<or> findColumnIndex s (the whereColumn) < 0"
    using that by (auto simp add: countWhere_def Let_def)
  show "count e s = 0" if "tableExists s \<and> (\<forall>r \<in> set (stored s). \<not> live e r)"
  proof -
    have "filter (live e) (stored s) = []" using that by (simp add: filter_empty_conv)
    then show ?thesis by (simp add: count_def count_loop_filter)
  qed
  show "countWhere e whereColumn whereValue s = 0"
    if a: "tableExists s \<and> whereColumn \<noteq> None \<and> whereValue \<noteq> None
        \<and> 0 \<le> findColumnIndex s (the whereColumn)
        \<and> (\<forall>r \<in> set (stored s).
              \<not> (live e r \<and> matches e s (nat (findColumnIndex s (the whereColumn))) whereValue r))"
  proof -
    have "filter (\<lambda>r. live e r \<and> matches e s (nat (findColumnIndex s (the whereColumn))) whereValue r)
            (stored s) = []"
      using a by (simp add: filter_empty_conv)
    then show ?thesis using a by (simp add: countWhere_def Let_def countWhere_loop_filter)
  qed
qed


theorem count_zero_is_not_an_error_witness:
  "count demo_env newESP32IMDB = 0
   \<and> countWhere demo_env (Some ''id'') (Some (Int32Value 1)) newESP32IMDB = 0
   \<and> countWhere demo_env None (Some (Int32Value 1)) demo_store = 0
   \<and> countWhere demo_env (Some ''id'') None demo_store = 0
   \<and> countWhere demo_env (Some ''nosuch'') (Some (Int32Value 1)) demo_store = 0
   \<and> countWhere demo_env (Some ''id'') (Some (Int32Value 9)) demo_store = 0
   \<and> countWhere demo_env (Some ''id'') (Some (Int32Value 1)) demo_store = 1"
proof -
  have nt: "\<not> tableExists newESP32IMDB" by (simp add: newESP32IMDB_def)
  have te: "tableExists demo_store" by (simp add: demo_store_def)
  have nf: "findColumnIndex demo_store ''nosuch'' < 0"
    by (simp add: findColumnIndex_def schema_demo_store demo_schema_def strcmp_eq_def c_str_def)
  have nm: "\<forall>r \<in> set (stored demo_store).
              \<not> (live demo_env r \<and> matches demo_env demo_store (nat (findColumnIndex demo_store (the (Some ''id'')))) (Some (Int32Value 9)) r)"
    by (simp add: stored_demo_store findColumnIndex_demo_store matches_demo_id)
  have one: "countWhere demo_env (Some ''id'') (Some (Int32Value 1)) demo_store = 1"
    by (simp add: countWhere_def te findColumnIndex_demo_store stored_demo_store matches_demo_id)
       (simp add: demo_record_def isRecordExpired_def)
  show ?thesis
    using count_zero_is_not_an_error [of newESP32IMDB demo_env "Some ''id''" "Some (Int32Value 1)"]
      count_zero_is_not_an_error [of demo_store demo_env None "Some (Int32Value 1)"]
      count_zero_is_not_an_error [of demo_store demo_env "Some ''id''" None]
      count_zero_is_not_an_error [of demo_store demo_env "Some ''nosuch''" "Some (Int32Value 1)"]
      count_zero_is_not_an_error [of demo_store demo_env "Some ''id''" "Some (Int32Value 9)"]
      nt te nf nm one findColumnIndex_demo_store(1)
    by simp
qed

section \<open>Minimum and maximum of an epoch column\<close>

lemma intColumn_Cons:
  "intColumn e ty ci (r # rs) =
     (if live e r
      then (if ty = IMDB_TYPE_INT32 then get_int32Value (getField r ci)
            else get_epochValue (getField r ci)) # intColumn e ty ci rs
      else intColumn e ty ci rs)"
  by (simp add: intColumn_def)

lemma min_loop_int:
  assumes "ty \<noteq> IMDB_TYPE_FLOAT"
    and "min_loop e ty ci rs (has, mv, mf) = (has', mv', mf')"
  shows "mf' = mf \<and> has' = (has \<or> intColumn e ty ci rs \<noteq> [])
       \<and> (has' \<longrightarrow> mv' \<in> set (intColumn e ty ci rs) \<union> (if has then {mv} else {})
             \<and> (\<forall>w \<in> set (intColumn e ty ci rs) \<union> (if has then {mv} else {}). sint mv' \<le> sint w))"
  using assms(2)
proof (induction rs arbitrary: has mv)
  case Nil
  then show ?case by (auto simp: intColumn_def)
next
  case (Cons r rs)
  show ?case
  proof (cases "live e r")
    case False
    then have "min_loop e ty ci rs (has, mv, mf) = (has', mv', mf')"
      using Cons.prems by (simp add: live_def)
    from Cons.IH [OF this] False show ?thesis by (simp add: intColumn_Cons)
  next
    case True
    define v where "v = (if ty = IMDB_TYPE_INT32 then get_int32Value (getField r ci)
                        else get_epochValue (getField r ci))"
    have ic: "intColumn e ty ci (r # rs) = v # intColumn e ty ci rs"
      using True by (simp add: intColumn_Cons v_def)
    show ?thesis
    proof (cases "\<not> has \<or> sint v < sint mv")
      case t: True
      then have "min_loop e ty ci rs (True, v, mf) = (has', mv', mf')"
        using Cons.prems True assms(1) by (simp add: live_def v_def Let_def)
      from Cons.IH [OF this] t show ?thesis unfolding ic by auto
    next
      case f: False
      then have "min_loop e ty ci rs (has, mv, mf) = (has', mv', mf')"
        using Cons.prems True assms(1) by (simp add: live_def v_def Let_def)
      from Cons.IH [OF this] f show ?thesis unfolding ic by auto
    qed
  qed
qed

lemma max_loop_int:
  assumes "ty \<noteq> IMDB_TYPE_FLOAT"
    and "max_loop e ty ci rs (has, mv, mf) = (has', mv', mf')"
  shows "mf' = mf \<and> has' = (has \<or> intColumn e ty ci rs \<noteq> [])
       \<and> (has' \<longrightarrow> mv' \<in> set (intColumn e ty ci rs) \<union> (if has then {mv} else {})
             \<and> (\<forall>w \<in> set (intColumn e ty ci rs) \<union> (if has then {mv} else {}). sint w \<le> sint mv'))"
  using assms(2)
proof (induction rs arbitrary: has mv)
  case Nil
  then show ?case by (auto simp: intColumn_def)
next
  case (Cons r rs)
  show ?case
  proof (cases "live e r")
    case False
    then have "max_loop e ty ci rs (has, mv, mf) = (has', mv', mf')"
      using Cons.prems by (simp add: live_def)
    from Cons.IH [OF this] False show ?thesis by (simp add: intColumn_Cons)
  next
    case True
    define v where "v = (if ty = IMDB_TYPE_INT32 then get_int32Value (getField r ci)
                        else get_epochValue (getField r ci))"
    have ic: "intColumn e ty ci (r # rs) = v # intColumn e ty ci rs"
      using True by (simp add: intColumn_Cons v_def)
    show ?thesis
    proof (cases "\<not> has \<or> sint v > sint mv")
      case t: True
      then have "max_loop e ty ci rs (True, v, mf) = (has', mv', mf')"
        using Cons.prems True assms(1) by (simp add: live_def v_def Let_def)
      from Cons.IH [OF this] t show ?thesis unfolding ic by auto
    next
      case f: False
      then have "max_loop e ty ci rs (has, mv, mf) = (has', mv', mf')"
        using Cons.prems True assms(1) by (simp add: live_def v_def Let_def)
      from Cons.IH [OF this] f show ?thesis unfolding ic by auto
    qed
  qed
qed

text \<open>
  C9.  On an epoch column \<open>min\<close> and \<open>max\<close> return the least and the greatest of the live
  records' values in the order of their readings as signed 32-bit integers (\<open>sint\<close>),
  not as unsigned ones: for a store holding the epochs 1 and \<open>2^31\<close>, \<open>min\<close> returns
  \<open>2^31\<close> and \<open>max\<close> returns 1.
\<close>

theorem min_max_epoch_signed:
  assumes "tableExists s" and "findColumnIndex s column = int ci"
    and "columnType s ci = IMDB_TYPE_EPOCH"
    and "vals = map (\<lambda>r. get_epochValue (getField r ci)) (filter (live e) (stored s))"
    and "vals \<noteq> []"
  shows "\<exists>lo hi. lo \<in> set vals \<and> hi \<in> set vals
           \<and> (\<forall>w \<in> set vals. sint lo \<le> sint w \<and> sint w \<le> sint hi)
           \<and> min_imdb e (Some column) (Some result) s =
               (IMDB_OK, Some (result\<lparr>hasValue := True, resultType := IMDB_TYPE_EPOCH, epochValue := lo\<rparr>))
           \<and> max_imdb e (Some column) (Some result) s =
               (IMDB_OK, Some (result\<lparr>hasValue := True, resultType := IMDB_TYPE_EPOCH, epochValue := hi\<rparr>))"
proof -
  have ic: "intColumn e IMDB_TYPE_EPOCH ci (stored s) = vals"
    using assms(4) by (simp add: intColumn_def)
  obtain h1 lo f1 where mn: "min_loop e IMDB_TYPE_EPOCH ci (stored s) (False, 0x7FFFFFFF, 0x7F7FFFFF) = (h1, lo, f1)"
    by (cases "min_loop e IMDB_TYPE_EPOCH ci (stored s) (False, 0x7FFFFFFF, 0x7F7FFFFF)")
  obtain h2 hi f2 where mx: "max_loop e IMDB_TYPE_EPOCH ci (stored s) (False, 0x80000000, 0xFF7FFFFF) = (h2, hi, f2)"
    by (cases "max_loop e IMDB_TYPE_EPOCH ci (stored s) (False, 0x80000000, 0xFF7FFFFF)")
  from min_loop_int [OF _ mn] ic assms(5)
  have lo: "h1" "lo \<in> set vals" "\<forall>w \<in> set vals. sint lo \<le> sint w" by auto
  from max_loop_int [OF _ mx] ic assms(5)
  have hi: "h2" "hi \<in> set vals" "\<forall>w \<in> set vals. sint w \<le> sint hi" by auto
  have "min_imdb e (Some column) (Some result) s =
        (IMDB_OK, Some (result\<lparr>hasValue := True, resultType := IMDB_TYPE_EPOCH, epochValue := lo\<rparr>))"
    using assms(1-3) mn lo(1) by (simp add: min_imdb_def Let_def extremum_result_def)
  moreover have "max_imdb e (Some column) (Some result) s =
        (IMDB_OK, Some (result\<lparr>hasValue := True, resultType := IMDB_TYPE_EPOCH, epochValue := hi\<rparr>))"
    using assms(1-3) mx hi(1) by (simp add: max_imdb_def Let_def extremum_result_def)
  ultimately show ?thesis using lo hi by blast
qed

theorem min_max_epoch_signed_witness:
  "min_imdb demo_env (Some ''seen'') (Some (uninitResult demo_env)) demo_store_epochs =
     (IMDB_OK, Some ((uninitResult demo_env)\<lparr>hasValue := True, resultType := IMDB_TYPE_EPOCH,
                                           epochValue := 0x80000000\<rparr>))
   \<and> max_imdb demo_env (Some ''seen'') (Some (uninitResult demo_env)) demo_store_epochs =
     (IMDB_OK, Some ((uninitResult demo_env)\<lparr>hasValue := True, resultType := IMDB_TYPE_EPOCH,
                                           epochValue := 1\<rparr>))"
proof -
  have te: "tableExists demo_store_epochs" by (simp add: demo_store_epochs_def demo_store_def)
  have sc: "schema demo_store_epochs = demo_schema"
    by (simp add: schema_def demo_store_epochs_def demo_store_def demo_schema_def)
  have fc: "findColumnIndex demo_store_epochs ''seen'' = int 2"
    by (simp add: findColumnIndex_def sc demo_schema_def strcmp_eq_def c_str_def)
  have ct: "columnType demo_store_epochs 2 = IMDB_TYPE_EPOCH"
    by (simp add: columnType_def sc demo_schema_def)
  have vs: "[1, 0x80000000] = map (\<lambda>r. get_epochValue (getField r 2)) (filter (live demo_env) (stored demo_store_epochs))"
    by (simp add: stored_def demo_store_epochs_def demo_store_def demo_record_def live_def
        isRecordExpired_def getField_def fieldAt_def)
  from min_max_epoch_signed [OF te fc ct vs, of "uninitResult demo_env"]
  obtain lo hi :: uint32_t where
    m: "lo \<in> set [1, 0x80000000]" "hi \<in> set [1, 0x80000000]"
      "\<forall>w \<in> set [1, 0x80000000 :: uint32_t]. sint lo \<le> sint w \<and> sint w \<le> sint hi"
      "min_imdb demo_env (Some ''seen'') (Some (uninitResult demo_env)) demo_store_epochs =
        (IMDB_OK, Some ((uninitResult demo_env)\<lparr>hasValue := True, resultType := IMDB_TYPE_EPOCH, epochValue := lo\<rparr>))"
      "max_imdb demo_env (Some ''seen'') (Some (uninitResult demo_env)) demo_store_epochs =
        (IMDB_OK, Some ((uninitResult demo_env)\<lparr>hasValue := True, resultType := IMDB_TYPE_EPOCH, epochValue := hi\<rparr>))"
    by auto
  have "lo = 0x80000000" using m(1,3) by auto
  moreover have "hi = 1" using m(2,3) by auto
  ultimately show ?thesis using m(4,5) by simp
qed

section \<open>Division and modulo by a zero operand\<close>

lemma math_step_zero:
  "operation = IMDB_MATH_DIVIDE \<or> operation = IMDB_MATH_MODULO \<Longrightarrow>
   math_step e ty operation 0 f = (Some IMDB_ERROR_INVALID_OPERATION, f)"
  by (auto simp add: math_step_def Let_def)

lemma math_loop_zero:
  assumes "operation = IMDB_MATH_DIVIDE \<or> operation = IMDB_MATH_MODULO"
  shows "math_loop e s wi wv si operation 0 rs u =
     (if \<exists>r \<in> set rs. live e r \<and> matches e s wi wv r
      then Some IMDB_ERROR_INVALID_OPERATION else None, rs, u)"
proof (induction rs)
  case Nil
  then show ?case by simp
next
  case (Cons r rs)
  show ?case
  proof (cases "live e r \<and> matches e s wi wv r")
    case True
    then show ?thesis
      using math_step_zero [OF assms] by (simp add: live_def)
  next
    case False
    then show ?thesis using Cons.IH by (auto simp add: live_def)
  qed
qed

lemma stored_spare: "stored s @ spare s = records s"
  by (simp add: stored_def spare_def)

text \<open>
  C5, as amended.  \<open>updateWithMath\<close> with divide or modulo and operand 0 never returns
  \<open>IMDB_OK\<close> and changes nothing in the store.  When the table exists, the arguments are
  non-null, both columns are found, the set column is an \<open>Int32\<close>, \<open>Epoch\<close> or \<open>Float\<close>
  column and at least one live record matches the where condition, the error returned
  is \<open>IMDB_ERROR_INVALID_OPERATION\<close>.  (The guards before the scan return their own
  errors first: on a string set column the call returns \<open>IMDB_ERROR_INVALID_TYPE\<close>
  although a live record matches.)
\<close>

theorem updateWithMath_zero_divisor:
  assumes "operation = IMDB_MATH_DIVIDE \<or> operation = IMDB_MATH_MODULO"
  shows "fst (updateWithMath e whereColumn whereValue setColumn operation 0 s) \<noteq> IMDB_OK
       \<and> snd (updateWithMath e whereColumn whereValue setColumn operation 0 s) = s
       \<and> (tableExists s \<and> whereColumn \<noteq> None \<and> whereValue \<noteq> None \<and> setColumn \<noteq> None
            \<and> 0 \<le> findColumnIndex s (the whereColumn) \<and> 0 \<le> findColumnIndex s (the setColumn)
            \<and> columnType s (nat (findColumnIndex s (the setColumn)))
                 \<in> {IMDB_TYPE_INT32, IMDB_TYPE_EPOCH, IMDB_TYPE_FLOAT}
            \<and> (\<exists>r \<in> set (stored s).
                  live e r \<and> matches e s (nat (findColumnIndex s (the whereColumn))) whereValue r)
          \<longrightarrow> fst (updateWithMath e whereColumn whereValue setColumn operation 0 s)
                = IMDB_ERROR_INVALID_OPERATION)"
  by (auto simp add: updateWithMath_def Let_def math_loop_zero [OF assms] stored_spare)

theorem updateWithMath_zero_divisor_counterexample:
  "live demo_env (stored demo_store ! 0)
   \<and> matches demo_env demo_store (nat (findColumnIndex demo_store ''id'')) (Some (Int32Value 1))
        (stored demo_store ! 0)
   \<and> updateWithMath demo_env (Some ''id'') (Some (Int32Value 1)) (Some ''name'') IMDB_MATH_DIVIDE 0
        demo_store = (IMDB_ERROR_INVALID_TYPE, demo_store)"
proof -
  have te: "tableExists demo_store" by (simp add: demo_store_def)
  have l: "live demo_env (demo_record 1 ''a'' 1 0)"
    by (simp add: live_def demo_record_def isRecordExpired_def)
  show ?thesis
    using l te
    by (simp add: stored_demo_store findColumnIndex_demo_store matches_demo_id
        updateWithMath_def columnType_demo_store)
qed

theorem updateWithMath_zero_divisor_witness:
  "updateWithMath demo_env (Some ''id'') (Some (Int32Value 1)) (Some ''seen'') IMDB_MATH_DIVIDE 0
     demo_store = (IMDB_ERROR_INVALID_OPERATION, demo_store)"
proof -
  have te: "tableExists demo_store" by (simp add: demo_store_def)
  have l: "live demo_env (demo_record 1 ''a'' 1 0)"
    by (simp add: live_def demo_record_def isRecordExpired_def)
  have ex: "\<exists>r \<in> set (stored demo_store).
              live demo_env r \<and> matches demo_env demo_store
                  (nat (findColumnIndex demo_store (the (Some ''id'')))) (Some (Int32Value 1)) r"
    using l by (simp add: stored_demo_store findColumnIndex_demo_store matches_demo_id)
  have "fst (updateWithMath demo_env (Some ''id'') (Some (Int32Value 1)) (Some ''seen'') IMDB_MATH_DIVIDE 0
     demo_store) = IMDB_ERROR_INVALID_OPERATION
    \<and> snd (updateWithMath demo_env (Some ''id'') (Some (Int32Value 1)) (Some ''seen'') IMDB_MATH_DIVIDE 0
     demo_store) = demo_store"
    using updateWithMath_zero_divisor [of IMDB_MATH_DIVIDE demo_env "Some ''id''"
        "Some (Int32Value 1)" "Some ''seen''" demo_store] te ex
    by (simp add: findColumnIndex_demo_store columnType_demo_store)
  then show ?thesis by (simp add: prod_eq_iff)
qed

section \<open>top, its two loops and the clock\<close>

lemma isRecordExpired_at_steady:
  "isRecordExpired_at (steady e) k x = (isRecordExpired e x, if x = 0 then k else k + 1)"
  by (simp add: isRecordExpired_at_def steady_def isRecordExpired_def Let_def)

text \<open>
  When every reading of the clock finds the same records expired, those expired at
  \<open>millis e\<close>, the two loops of \<open>top\<close> see the same records.
\<close>

lemma top_count_agree:
  assumes "\<forall>r \<in> set rs. \<forall>k. fst (isRecordExpired_at clock k (expiryMillis r))
                                 = isRecordExpired e (expiryMillis r)"
  shows "fst (top_count clock rs k n) = n + length (filter (live e) rs)"
  using assms
proof (induction rs arbitrary: k n)
  case Nil
  then show ?case by simp
next
  case (Cons r rs)
  obtain ex k' where x: "isRecordExpired_at clock k (expiryMillis r) = (ex, k')"
    by (cases "isRecordExpired_at clock k (expiryMillis r)")
  have ex: "ex = isRecordExpired e (expiryMillis r)" using Cons.prems x by (auto dest: spec [of _ k])
  have lr: "live e r = (isValid r \<and> \<not> ex)" by (simp add: live_def ex)
  have ih: "fst (top_count clock rs j m) = m + length (filter (live e) rs)" for j m
    using Cons.IH [of j m] Cons.prems by simp
  show ?case using x ih by (simp add: lr)
qed

lemma top_fill_agree:
  assumes "\<forall>r \<in> set rs. \<forall>k. fst (isRecordExpired_at clock k (expiryMillis r))
                                 = isRecordExpired e (expiryMillis r)"
  shows "top_fill e clock s rs k resultIdx returnCount =
           map (resultRow e s) (take (nat (returnCount - resultIdx)) (filter (live e) rs))"
  using assms
proof (induction rs arbitrary: k resultIdx)
  case Nil
  then show ?case by simp
next
  case (Cons r rs)
  obtain ex k' where x: "isRecordExpired_at clock k (expiryMillis r) = (ex, k')"
    by (cases "isRecordExpired_at clock k (expiryMillis r)")
  have ex: "ex = isRecordExpired e (expiryMillis r)" using Cons.prems x by (auto dest: spec [of _ k])
  have ih: "top_fill e clock s rs j i returnCount =
              map (resultRow e s) (take (nat (returnCount - i)) (filter (live e) rs))" for j i
    using Cons.IH [of j i] Cons.prems by simp
  show ?case
  proof (cases "resultIdx < returnCount")
    case False
    then show ?thesis by simp
  next
    case True
    then have k: "nat (returnCount - resultIdx) = Suc (nat (returnCount - (resultIdx + 1)))"
      by arith
    have lr: "live e r = (isValid r \<and> \<not> ex)" by (simp add: live_def ex)
    show ?thesis
    proof (cases "live e r")
      case l: True
      then have "isValid r" "\<not> ex" by (simp_all add: lr)
      then show ?thesis using True x ih k l by simp
    next
      case l: False
      then have "\<not> isValid r \<or> ex" by (simp add: lr)
      then show ?thesis using True x ih l by auto
    qed
  qed
qed

text \<open>What \<open>getFieldValue\<close> leaves in a cell of a row.\<close>

lemma getFieldValue_cell:
  "resultType (getFieldValue f ty c) = ty"
  "hasValue (getFieldValue f ty c)"
  "int32Value (getFieldValue f IMDB_TYPE_INT32 c) = get_int32Value f"
  "macAddress (getFieldValue f IMDB_TYPE_MAC c) = get_macAddress f"
  "stringValue (getFieldValue (StringValue (Some str)) IMDB_TYPE_STRING c)
     = take 255 (takeWhile (\<lambda>ch. ch \<noteq> CHR 0x00) str)"
  "stringValue (getFieldValue (StringValue None) IMDB_TYPE_STRING c) = []"
  "epochValue (getFieldValue f IMDB_TYPE_EPOCH c) = get_epochValue f"
  "boolValue (getFieldValue f IMDB_TYPE_BOOL c) = get_boolValue f"
  "floatValue (getFieldValue f IMDB_TYPE_FLOAT c) = get_floatValue f"
  by (simp_all add: getFieldValue_def Let_def c_str_def IMDB_MAX_STRING_LENGTH_def
      split: IMDBDataType.splits option.splits)

text \<open>
  So when no record expires during the call, a live record exists and \<open>n\<close> is at least
  1, \<open>top\<close> returns \<open>IMDB_OK\<close>, the count \<open>min n liveCount\<close> and an array made of one row
  for each of the first \<open>min n liveCount\<close> live records in store order, a row holding
  every column of its record; no value is compared.  The call is one that can return
  rows: the table exists, the two out-pointers are not null and the result array is
  allocated.
\<close>

lemma top_first_live_records:
  assumes "tableExists s" and "1 \<le> n" and "filter (live e) (stored s) \<noteq> []"
    and "results \<noteq> None" and "resultCount \<noteq> None"
    and "mallocOk e (mallocCalls (heap s))"
    and "\<forall>r \<in> set (stored s). \<forall>k. fst (isRecordExpired_at clock k (expiryMillis r))
                                        = isRecordExpired e (expiryMillis r)"
  shows "top_imdb e clock n results resultCount s =
           (IMDB_OK,
            Some (Some (concat (map
              (\<lambda>r. map (\<lambda>col. getFieldValue (getField r col) (columnType s col) (uninitResult e))
                      [0..<unat (columnCount s)])
              (take (nat n) (filter (live e) (stored s)))))),
            Some (min n (int (length (filter (live e) (stored s))))),
            snd (malloc e (heap s)))"
proof -
  define lv where "lv = filter (live e) (stored s)"
  define rc where "rc = (if n < int (length lv) then n else int (length lv))"
  obtain vc k where tc: "top_count clock (stored s) 0 0 = (vc, k)"
    by (cases "top_count clock (stored s) 0 0")
  have vc: "vc = length lv"
    using top_count_agree [OF assms(7), of 0 0] tc by (simp add: lv_def)
  have lvne: "length lv \<noteq> 0" using assms(3) by (simp add: lv_def)
  have rows: "top_fill e clock s (stored s) k 0 rc = map (resultRow e s) (take (nat rc) lv)"
    by (simp add: top_fill_agree [OF assms(7)] lv_def)
  have tk: "take (nat rc) lv = take (nat n) lv" by (simp add: rc_def)
  have len: "length (take (nat rc) lv) = nat rc" using assms(2) by (auto simp add: rc_def)
  have rcmin: "rc = min n (int (length lv))" by (simp add: rc_def min_def)
  have rr: "resultRow e s = (\<lambda>r. map (\<lambda>col. getFieldValue (getField r col) (columnType s col) (uninitResult e))
                      [0..<unat (columnCount s)])"
    by (rule ext) (simp add: resultRow_def)
  obtain h1 where m: "malloc e (heap s) = (True, h1)"
    using assms(6) by (simp add: malloc_def)
  have "top_imdb e clock n results resultCount s =
          (IMDB_OK, Some (Some (concat (map (resultRow e s) (take (nat rc) lv))
              @ replicate ((nat rc - length (take (nat rc) lv)) * unat (columnCount s)) (uninitResult e))),
           Some rc, h1)"
    using assms(1,4,5) lvne
    by (simp add: top_imdb_def tc vc m rows Let_def flip: rc_def)
  then have "top_imdb e clock n results resultCount s =
          (IMDB_OK, Some (Some (concat (map (resultRow e s) (take (nat n) lv)))),
           Some rc, h1)"
    using len tk by simp
  then show ?thesis
    by (simp add: rcmin rr lv_def m)
qed

text \<open>
  C8.  \<open>top\<close> counts the live records in a first loop, takes the size of the array and
  \<open>*resultCount\<close> from that count, and looks for the live records again in a second
  loop, which reads the clock anew for every record that has an expiry.  When a record
  expires between the two loops the array has a row that is never written.  In the
  example store the second record expires at 100.  With the clock at 99 in the first
  loop and at 100 in the second, \<open>top(3)\<close> returns \<open>IMDB_OK\<close> and \<open>*resultCount = 3\<close>, but
  only two rows are written, those of the first and of the third record; the third
  row is the memory \<open>malloc\<close> returned.  Three records are live at 99 and two at 100: the
  three rows returned are the first \<open>min 3 liveCount\<close> live records at neither reading.
\<close>

theorem top_returns_a_row_it_never_wrote:
  "top_imdb demo_env demo_clock 3 (Some None) (Some 0) demo_store =
     (IMDB_OK,
      Some (Some
        [(uninitResult demo_env)\<lparr>resultType := IMDB_TYPE_INT32, hasValue := True, int32Value := 1\<rparr>,
         (uninitResult demo_env)\<lparr>resultType := IMDB_TYPE_STRING, hasValue := True, stringValue := ''a''\<rparr>,
         (uninitResult demo_env)\<lparr>resultType := IMDB_TYPE_EPOCH, hasValue := True, epochValue := 1\<rparr>,
         (uninitResult demo_env)\<lparr>resultType := IMDB_TYPE_INT32, hasValue := True, int32Value := 3\<rparr>,
         (uninitResult demo_env)\<lparr>resultType := IMDB_TYPE_STRING, hasValue := True, stringValue := ''c''\<rparr>,
         (uninitResult demo_env)\<lparr>resultType := IMDB_TYPE_EPOCH, hasValue := True, epochValue := 7\<rparr>,
         uninitResult demo_env, uninitResult demo_env, uninitResult demo_env]),
      Some 3, \<lparr>mallocCalls = 9, liveBlocks = 9\<rparr>)
   \<and> demo_clock 0 = 99 \<and> demo_clock 1 = 100
   \<and> filter (live (demo_env\<lparr>millis := 99\<rparr>)) (stored demo_store)
       = [demo_record 1 ''a'' 1 0, demo_record 2 ''b'' 0x80000000 100, demo_record 3 ''c'' 7 0]
   \<and> filter (live (demo_env\<lparr>millis := 100\<rparr>)) (stored demo_store)
       = [demo_record 1 ''a'' 1 0, demo_record 3 ''c'' 7 0]"
proof -
  have te: "tableExists demo_store" "columnCount demo_store = 3"
    "heap demo_store = \<lparr>mallocCalls = 8, liveBlocks = 8\<rparr>"
    by (simp_all add: demo_store_def)
  have env: "mallocOk demo_env = (\<lambda>k. True)" by (simp add: demo_env_def)
  have ck: "demo_clock 0 = 99" "demo_clock 1 = 100" "demo_clock (Suc 0) = 100"
    by (simp_all add: demo_clock_def)
  have tc: "top_count demo_clock (stored demo_store) 0 0 = (3, 1)"
    by (simp add: stored_demo_store demo_record_sel isRecordExpired_at_def ck)
  have row: "resultRow demo_env demo_store (demo_record i nm sn ex) =
      [(uninitResult demo_env)\<lparr>resultType := IMDB_TYPE_INT32, hasValue := True, int32Value := i\<rparr>,
       (uninitResult demo_env)\<lparr>resultType := IMDB_TYPE_STRING, hasValue := True,
                                 stringValue := take 255 (c_str nm)\<rparr>,
       (uninitResult demo_env)\<lparr>resultType := IMDB_TYPE_EPOCH, hasValue := True, epochValue := sn\<rparr>]"
    for i nm sn ex
  proof -
    have n3: "unat (columnCount demo_store) = Suc (Suc (Suc 0))" by (simp add: te)
    have u: "[0..<unat (columnCount demo_store)] = [0, Suc 0, 2]"
      unfolding n3 by (simp add: upt_conv_Cons)
    show ?thesis
      by (simp add: resultRow_def u columnType_demo_store getField_def fieldAt_def
          demo_record_sel getFieldValue_def IMDB_MAX_STRING_LENGTH_def)
  qed
  have tf: "top_fill demo_env demo_clock demo_store (stored demo_store) (Suc 0) 0 3 =
              [resultRow demo_env demo_store (demo_record 1 ''a'' 1 0),
               resultRow demo_env demo_store (demo_record 3 ''c'' 7 0)]"
    by (simp add: stored_demo_store demo_record_sel isRecordExpired_at_def ck)
  have top: "top_imdb demo_env demo_clock 3 (Some None) (Some 0) demo_store =
     (IMDB_OK,
      Some (Some (resultRow demo_env demo_store (demo_record 1 ''a'' 1 0)
                  @ resultRow demo_env demo_store (demo_record 3 ''c'' 7 0)
                  @ replicate 3 (uninitResult demo_env))),
      Some 3, \<lparr>mallocCalls = 9, liveBlocks = 9\<rparr>)"
    by (simp add: top_imdb_def te tc tf malloc_def env Let_def)
  have l1: "filter (live (demo_env\<lparr>millis := 99\<rparr>)) (stored demo_store)
       = [demo_record 1 ''a'' 1 0, demo_record 2 ''b'' 0x80000000 100, demo_record 3 ''c'' 7 0]"
    by (simp add: stored_demo_store live_def demo_record_sel isRecordExpired_def)
  have l2: "filter (live (demo_env\<lparr>millis := 100\<rparr>)) (stored demo_store)
       = [demo_record 1 ''a'' 1 0, demo_record 3 ''c'' 7 0]"
    by (simp add: stored_demo_store live_def demo_record_sel isRecordExpired_def)
  show ?thesis
    by (simp add: top row l1 l2 ck c_str_def numeral_3_eq_3)
qed

section \<open>The scans skip the records that are not live\<close>

lemma select_loop_live:
  "select_loop e s ci wi wv rs result = select_loop e s ci wi wv (filter (live e) rs) result"
  by (induction rs) (auto simp add: live_def)

text \<open>The two loops of \<open>selectAll\<close> under a clock that stands still.\<close>

lemma selectAll_count_steady:
  "fst (selectAll_count e (steady e) s wi wv rs k n)
     = n + length (filter (\<lambda>r. matches e s wi wv r) (filter (live e) rs))"
  by (induction rs arbitrary: k n) (simp_all add: isRecordExpired_at_steady live_def)

lemma selectAll_fill_steady:
  "selectAll_fill e (steady e) s wi wv rs k
     = map (resultRow e s) (filter (\<lambda>r. matches e s wi wv r) (filter (live e) rs))"
  by (induction rs arbitrary: k) (simp_all add: isRecordExpired_at_steady live_def)

lemma count_loop_live: "count_loop e rs cnt = count_loop e (filter (live e) rs) cnt"
  by (simp add: count_loop_filter)

lemma countWhere_loop_live:
  "countWhere_loop e s wi wv rs cnt = countWhere_loop e s wi wv (filter (live e) rs) cnt"
proof -
  have "filter (\<lambda>r. live e r \<and> matches e s wi wv r) (filter (live e) rs)
        = filter (\<lambda>r. live e r \<and> matches e s wi wv r) rs"
    by (induction rs) auto
  then show ?thesis by (simp add: countWhere_loop_filter)
qed

lemma min_loop_live: "min_loop e ty ci rs st = min_loop e ty ci (filter (live e) rs) st"
proof (induction rs arbitrary: st)
  case Nil
  then show ?case by simp
next
  case (Cons r rs)
  obtain has mv mf where st: "st = (has, mv, mf)" by (cases st)
  show ?case unfolding st using Cons.IH by (auto simp add: live_def Let_def)
qed

lemma max_loop_live: "max_loop e ty ci rs st = max_loop e ty ci (filter (live e) rs) st"
proof (induction rs arbitrary: st)
  case Nil
  then show ?case by simp
next
  case (Cons r rs)
  obtain has mv mf where st: "st = (has, mv, mf)" by (cases st)
  show ?case unfolding st using Cons.IH by (auto simp add: live_def Let_def)
qed

lemma top_count_steady: "fst (top_count (steady e) rs k n) = n + length (filter (live e) rs)"
  by (rule top_count_agree) (simp add: isRecordExpired_at_steady)

lemma top_fill_steady:
  "top_fill e (steady e) s rs k i c = map (resultRow e s) (take (nat (c - i)) (filter (live e) rs))"
  by (rule top_fill_agree) (simp add: isRecordExpired_at_steady)

lemma live_setField [simp]: "live e (setField r i f) = live e r"
  by (simp add: live_def setField_def)

lemma update_loop_skip:
  "\<not> (live e r \<and> matches e s wi wv r) \<Longrightarrow>
   update_loop e s wi wv si sv (r # rs) u h =
     (case update_loop e s wi wv si sv rs u h of (err, rs', u', h') \<Rightarrow> (err, r # rs', u', h'))"
  by (auto simp add: live_def split: prod.splits)

lemma update_loop_hit:
  "live e r \<Longrightarrow> matches e s wi wv r \<Longrightarrow>
   update_loop e s wi wv si sv (r # rs) u h =
     (case (if columnType s si = IMDB_TYPE_STRING
               \<and> get_stringValue (getField r si) \<noteq> None
            then (setField r si (StringValue None), free h) else (r, h)) of
        (r1, h1) \<Rightarrow>
          (case copyFieldValue e (getField r1 si) sv (columnType s si) h1 of
             (result, f, h2) \<Rightarrow>
               if result \<noteq> IMDB_OK then (Some result, setField r1 si f # rs, u, h2)
               else
                 (case update_loop e s wi wv si sv rs True h2 of
                    (err, rs', u', h') \<Rightarrow> (err, setField r1 si f # rs', u', h'))))"
  by (auto simp add: live_def split: prod.splits)

lemma math_loop_skip:
  "\<not> (live e r \<and> matches e s wi wv r) \<Longrightarrow>
   math_loop e s wi wv si operation operand (r # rs) u =
     (case math_loop e s wi wv si operation operand rs u of (err, rs', u') \<Rightarrow> (err, r # rs', u'))"
  by (auto simp add: live_def split: prod.splits)

lemma math_loop_hit:
  "live e r \<Longrightarrow> matches e s wi wv r \<Longrightarrow>
   math_loop e s wi wv si operation operand (r # rs) u =
     (case math_step e (columnType s si) operation operand (getField r si) of
        (Some result, f) \<Rightarrow> (Some result, r # rs, u)
      | (None, f) \<Rightarrow>
          (case math_loop e s wi wv si operation operand rs True of
             (err, rs', u') \<Rightarrow> (err, setField r si f # rs', u')))"
  by (auto simp add: live_def split: prod.splits)

declare update_loop.simps(2) [simp del] math_loop.simps(2) [simp del]

lemma nth_Cons_unchanged:
  "(\<forall>i < length rs. P (rs ! i) \<longrightarrow> rs2 ! i = rs ! i) \<Longrightarrow> (P r \<longrightarrow> r' = r) \<Longrightarrow>
   (\<forall>i < length (r # rs). P ((r # rs) ! i) \<longrightarrow> (r' # rs2) ! i = (r # rs) ! i)"
  by (auto simp add: nth_Cons split: nat.splits)

lemma update_loop_skips:
  "update_loop e s wi wv si sv rs u h = (err, rs', u', h') \<Longrightarrow>
   update_loop e s wi wv si sv (filter (live e) rs) u h = (err, filter (live e) rs', u', h')
   \<and> length rs' = length rs
   \<and> (\<forall>i < length rs. \<not> live e (rs ! i) \<longrightarrow> rs' ! i = rs ! i)"
proof (induction rs arbitrary: u h err rs' u' h')
  case Nil
  then show ?case by simp
next
  case (Cons r rs)
  show ?case
  proof (cases "live e r \<and> matches e s wi wv r")
    case False
    obtain err2 rs2 u2 h2 where l: "update_loop e s wi wv si sv rs u h = (err2, rs2, u2, h2)"
      by (cases "update_loop e s wi wv si sv rs u h")
    from Cons.prems l have eq: "err = err2" "rs' = r # rs2" "u' = u2" "h' = h2"
      by (simp_all add: update_loop_skip [OF False])
    note ih = Cons.IH [OF l]
    have a: "update_loop e s wi wv si sv (filter (live e) (r # rs)) u h
               = (err2, filter (live e) (r # rs2), u2, h2)"
      using ih False by (simp add: update_loop_skip)
    have b: "length (r # rs2) = length (r # rs)" using ih by simp
    have c: "\<forall>i < length (r # rs). \<not> live e ((r # rs) ! i) \<longrightarrow> (r # rs2) ! i = (r # rs) ! i"
      by (rule nth_Cons_unchanged) (use ih in simp_all)
    show ?thesis unfolding eq using a b c by blast
  next
    case True
    then have lv: "live e r" and m: "matches e s wi wv r" by simp_all
    obtain r1 h1 where p: "(if columnType s si = IMDB_TYPE_STRING
                  \<and> get_stringValue (getField r si) \<noteq> None
               then (setField r si (StringValue None), free h) else (r, h)) = (r1, h1)"
      by (cases "(if columnType s si = IMDB_TYPE_STRING
                  \<and> get_stringValue (getField r si) \<noteq> None
               then (setField r si (StringValue None), free h) else (r, h))")
    have lr1: "live e r1" using p lv by (auto split: if_splits)
    obtain res f h2 where c: "copyFieldValue e (getField r1 si) sv (columnType s si) h1 = (res, f, h2)"
      by (cases "copyFieldValue e (getField r1 si) sv (columnType s si) h1")
    have lf: "live e (setField r1 si f)" using lr1 by simp
    show ?thesis
    proof (cases "res = IMDB_OK")
      case False
      have step: "\<And>xs. update_loop e s wi wv si sv (r # xs) u h = (Some res, setField r1 si f # xs, u, h2)"
        using p c False by (simp add: update_loop_hit [OF lv m])
      from Cons.prems have eq: "err = Some res" "rs' = setField r1 si f # rs" "u' = u" "h' = h2"
        by (simp_all add: step)
      have a: "update_loop e s wi wv si sv (filter (live e) (r # rs)) u h
               = (Some res, setField r1 si f # filter (live e) rs, u, h2)"
        using lv by (simp add: step)
      have c': "\<forall>i < length (r # rs). \<not> live e ((r # rs) ! i) \<longrightarrow> (setField r1 si f # rs) ! i = (r # rs) ! i"
        by (rule nth_Cons_unchanged) (use lv in simp_all)
      show ?thesis unfolding eq using a c' lf by simp
    next
      case ok: True
      obtain err2 rs2 u2 h3 where l: "update_loop e s wi wv si sv rs True h2 = (err2, rs2, u2, h3)"
        by (cases "update_loop e s wi wv si sv rs True h2")
      note ih = Cons.IH [OF l]
      from Cons.prems p c ok l
      have eq: "err = err2" "rs' = setField r1 si f # rs2" "u' = u2" "h' = h3"
        by (simp_all add: update_loop_hit [OF lv m])
      have a: "update_loop e s wi wv si sv (filter (live e) (r # rs)) u h
                = (err2, setField r1 si f # filter (live e) rs2, u2, h3)"
        using lv p c ok ih by (simp add: update_loop_hit [OF lv m])
      have c': "\<forall>i < length (r # rs). \<not> live e ((r # rs) ! i) \<longrightarrow> (setField r1 si f # rs2) ! i = (r # rs) ! i"
        by (rule nth_Cons_unchanged) (use lv ih in simp_all)
      show ?thesis unfolding eq using a c' lf ih by simp
    qed
  qed
qed

lemma math_loop_skips:
  "math_loop e s wi wv si operation operand rs u = (err, rs', u') \<Longrightarrow>
   math_loop e s wi wv si operation operand (filter (live e) rs) u = (err, filter (live e) rs', u')
   \<and> length rs' = length rs
   \<and> (\<forall>i < length rs. \<not> live e (rs ! i) \<longrightarrow> rs' ! i = rs ! i)"
proof (induction rs arbitrary: u err rs' u')
  case Nil
  then show ?case by simp
next
  case (Cons r rs)
  show ?case
  proof (cases "live e r \<and> matches e s wi wv r")
    case False
    obtain err2 rs2 u2 where l: "math_loop e s wi wv si operation operand rs u = (err2, rs2, u2)"
      by (cases "math_loop e s wi wv si operation operand rs u")
    from Cons.prems l have eq: "err = err2" "rs' = r # rs2" "u' = u2"
      by (simp_all add: math_loop_skip [OF False])
    note ih = Cons.IH [OF l]
    have a: "math_loop e s wi wv si operation operand (filter (live e) (r # rs)) u
               = (err2, filter (live e) (r # rs2), u2)"
      using ih False by (simp add: math_loop_skip)
    have c: "\<forall>i < length (r # rs). \<not> live e ((r # rs) ! i) \<longrightarrow> (r # rs2) ! i = (r # rs) ! i"
      by (rule nth_Cons_unchanged) (use ih in simp_all)
    show ?thesis unfolding eq using a c ih by simp
  next
    case True
    then have lv: "live e r" and m: "matches e s wi wv r" by simp_all
    obtain res f where c: "math_step e (columnType s si) operation operand (getField r si) = (res, f)"
      by (cases "math_step e (columnType s si) operation operand (getField r si)")
    have lf: "live e (setField r si f)" using lv by simp
    show ?thesis
    proof (cases res)
      case (Some x)
      have step: "\<And>xs. math_loop e s wi wv si operation operand (r # xs) u = (Some x, r # xs, u)"
        using c Some by (simp add: math_loop_hit [OF lv m])
      from Cons.prems have eq: "err = Some x" "rs' = r # rs" "u' = u"
        by (simp_all add: step)
      show ?thesis unfolding eq using lv by (simp add: step)
    next
      case None
      obtain err2 rs2 u2 where l: "math_loop e s wi wv si operation operand rs True = (err2, rs2, u2)"
        by (cases "math_loop e s wi wv si operation operand rs True")
      note ih = Cons.IH [OF l]
      from Cons.prems c None l have eq: "err = err2" "rs' = setField r si f # rs2" "u' = u2"
        by (simp_all add: math_loop_hit [OF lv m])
      have a: "math_loop e s wi wv si operation operand (filter (live e) (r # rs)) u
              = (err2, setField r si f # filter (live e) rs2, u2)"
        using lv c None ih by (simp add: math_loop_hit [OF lv m])
      have c': "\<forall>i < length (r # rs). \<not> live e ((r # rs) ! i) \<longrightarrow> (setField r si f # rs2) ! i = (r # rs) ! i"
        by (rule nth_Cons_unchanged) (use lv ih in simp_all)
      show ?thesis unfolding eq using a c' lf ih by simp
    qed
  qed
qed

text \<open>
  What a query returns depends on the live records only (for \<open>selectAll\<close> and \<open>top\<close>,
  which read the clock in two loops, when the clock stands still during the call);
  \<open>update\<close> and \<open>updateWithMath\<close> leave every record that is not live as it is and, on
  the live ones, do what they do on the store without the others.
\<close>

lemma columnType_cong: "schema s' = schema s \<Longrightarrow> columnType s' = columnType s"
  by (rule ext) (simp add: columnType_def)

lemma matches_cong:
  assumes "schema s' = schema s"
  shows "matches e s' = matches e s"
  by (intro ext) (simp add: matches_def columnType_cong [OF assms])

lemma findColumnIndex_cong: "schema s' = schema s \<Longrightarrow> findColumnIndex s' = findColumnIndex s"
  by (rule ext) (simp add: findColumnIndex_def)

lemma resultRow_cong:
  assumes "schema s' = schema s" and "columnCount s' = columnCount s"
  shows "resultRow e s' = resultRow e s"
  by (rule ext) (simp add: resultRow_def columnType_cong [OF assms(1)] assms(2))

lemma select_loop_cong:
  assumes "schema s' = schema s"
  shows "select_loop e s' ci wi wv rs r0 = select_loop e s ci wi wv rs r0"
  by (induction rs) (simp_all add: matches_cong [OF assms] columnType_cong [OF assms])

lemma selectAll_count_cong:
  assumes "schema s' = schema s"
  shows "selectAll_count e clock s' wi wv rs k n = selectAll_count e clock s wi wv rs k n"
  by (induction rs arbitrary: k n) (simp_all add: matches_cong [OF assms] split: prod.splits)

lemma selectAll_fill_cong:
  assumes "schema s' = schema s" and "columnCount s' = columnCount s"
  shows "selectAll_fill e clock s' wi wv rs k = selectAll_fill e clock s wi wv rs k"
  by (induction rs arbitrary: k)
     (simp_all add: matches_cong [OF assms(1)] resultRow_cong [OF assms] split: prod.splits)

lemma top_fill_cong:
  assumes "schema s' = schema s" and "columnCount s' = columnCount s"
  shows "top_fill e clock s' rs k i c = top_fill e clock s rs k i c"
  by (induction rs arbitrary: k i) (simp_all add: resultRow_cong [OF assms] split: prod.splits)

text \<open>\<open>selectAll\<close> and \<open>top\<close> read the schema, the stored records and the heap only.\<close>

lemma selectAll_top_cong:
  assumes "tableExists s' = tableExists s" and "schema s' = schema s"
    and "columnCount s' = columnCount s" and "stored s' = stored s" and "heap s' = heap s"
  shows "selectAll e clock whereColumn whereValue results resultCount s'
           = selectAll e clock whereColumn whereValue results resultCount s"
    and "top_imdb e clock n results resultCount s' = top_imdb e clock n results resultCount s"
proof -
  note c = findColumnIndex_cong [OF assms(2)]
  show "selectAll e clock whereColumn whereValue results resultCount s'
           = selectAll e clock whereColumn whereValue results resultCount s"
    by (simp add: selectAll_def assms(1,3,4,5) c selectAll_count_cong [OF assms(2)]
        selectAll_fill_cong [OF assms(2,3)] Let_def split: prod.splits bool.splits)
  show "top_imdb e clock n results resultCount s' = top_imdb e clock n results resultCount s"
    by (simp add: top_imdb_def assms(1,3,4,5) top_fill_cong [OF assms(2,3)] Let_def
        split: prod.splits bool.splits)
qed

lemma countWhere_loop_cong:
  assumes "schema s' = schema s"
  shows "countWhere_loop e s' wi wv rs n = countWhere_loop e s wi wv rs n"
  by (simp add: countWhere_loop_filter matches_cong [OF assms])

lemma update_loop_cong:
  assumes "schema s' = schema s"
  shows "update_loop e s' wi wv si sv rs u h = update_loop e s wi wv si sv rs u h"
  by (induction rs arbitrary: u h)
     (auto simp add: update_loop.simps(2) matches_cong [OF assms] columnType_cong [OF assms]
        split: prod.splits)

lemma math_loop_cong:
  assumes "schema s' = schema s"
  shows "math_loop e s' wi wv si operation operand rs u = math_loop e s wi wv si operation operand rs u"
  by (induction rs arbitrary: u)
     (auto simp add: math_loop.simps(2) matches_cong [OF assms] columnType_cong [OF assms]
        split: prod.splits option.splits)

lemma queries_see_live_records_only:
  assumes "tableExists s' = tableExists s" and "schema s' = schema s"
    and "columnCount s' = columnCount s"
    and "filter (live e) (stored s') = filter (live e) (stored s)"
  shows "select e column whereColumn whereValue result s' = select e column whereColumn whereValue result s"
    and "count e s' = count e s"
    and "countWhere e whereColumn whereValue s' = countWhere e whereColumn whereValue s"
    and "min_imdb e column result s' = min_imdb e column result s"
    and "max_imdb e column result s' = max_imdb e column result s"
    and "heap s' = heap s \<Longrightarrow>
         selectAll e (steady e) whereColumn whereValue results resultCount s'
           = selectAll e (steady e) whereColumn whereValue results resultCount s"
    and "heap s' = heap s \<Longrightarrow>
         top_imdb e (steady e) n results resultCount s' = top_imdb e (steady e) n results resultCount s"
proof -
  note c = findColumnIndex_cong [OF assms(2)] columnType_cong [OF assms(2)]
  have sl: "select_loop e s' ci wi wv (stored s') r0 = select_loop e s ci wi wv (stored s) r0"
    for ci wi wv r0
    using select_loop_live [of e s' ci wi wv "stored s'" r0] select_loop_live [of e s ci wi wv "stored s" r0]
    by (simp add: assms(4) select_loop_cong [OF assms(2)])
  show "select e column whereColumn whereValue result s' = select e column whereColumn whereValue result s"
    by (simp add: select_def assms(1) c sl Let_def)
  show "count e s' = count e s"
    by (simp add: count_def assms(1,4) count_loop_filter)
  have cw: "countWhere_loop e s' wi wv (stored s') 0 = countWhere_loop e s wi wv (stored s) 0" for wi wv
    using countWhere_loop_live [of e s' wi wv "stored s'" 0] countWhere_loop_live [of e s wi wv "stored s" 0]
    by (simp add: assms(4) countWhere_loop_cong [OF assms(2)])
  show "countWhere e whereColumn whereValue s' = countWhere e whereColumn whereValue s"
    by (simp add: countWhere_def assms(1) c cw Let_def)
  have mn: "min_loop e ty ci (stored s') st = min_loop e ty ci (stored s) st" for ty ci st
    using min_loop_live [of e ty ci "stored s'" st] min_loop_live [of e ty ci "stored s" st]
    by (simp add: assms(4))
  show "min_imdb e column result s' = min_imdb e column result s"
    by (simp add: min_imdb_def assms(1) c mn Let_def)
  have mx: "max_loop e ty ci (stored s') st = max_loop e ty ci (stored s) st" for ty ci st
    using max_loop_live [of e ty ci "stored s'" st] max_loop_live [of e ty ci "stored s" st]
    by (simp add: assms(4))
  show "max_imdb e column result s' = max_imdb e column result s"
    by (simp add: max_imdb_def assms(1) c mx Let_def)
  have sc: "fst (selectAll_count e (steady e) s' wi wv (stored s') 0 0)
              = fst (selectAll_count e (steady e) s wi wv (stored s) 0 0)" for wi wv
    by (simp add: selectAll_count_steady assms(4) matches_cong [OF assms(2)])
  have sf: "selectAll_fill e (steady e) s' wi wv (stored s') k
              = selectAll_fill e (steady e) s wi wv (stored s) k'" for wi wv k k'
    by (simp add: selectAll_fill_steady assms(4) matches_cong [OF assms(2)]
        resultRow_cong [OF assms(2,3)])
  show "selectAll e (steady e) whereColumn whereValue results resultCount s'
           = selectAll e (steady e) whereColumn whereValue results resultCount s" if "heap s' = heap s"
  proof -
    define wi where "wi = nat (findColumnIndex s (the whereColumn))"
    obtain n k where a: "selectAll_count e (steady e) s wi whereValue (stored s) 0 0 = (n, k)"
      by (cases "selectAll_count e (steady e) s wi whereValue (stored s) 0 0")
    obtain n' k' where b: "selectAll_count e (steady e) s' wi whereValue (stored s') 0 0 = (n', k')"
      by (cases "selectAll_count e (steady e) s' wi whereValue (stored s') 0 0")
    have n: "n' = n" using sc [of wi whereValue] a b by simp
    show ?thesis
      by (simp add: selectAll_def assms(1,3) c a b n sf [of _ _ k' k] that Let_def
          split: prod.splits bool.splits flip: wi_def)
  qed
  have tc: "fst (top_count (steady e) (stored s') 0 0) = fst (top_count (steady e) (stored s) 0 0)"
    by (simp add: top_count_steady assms(4))
  have tf: "top_fill e (steady e) s' (stored s') k i c = top_fill e (steady e) s (stored s) k' i c"
    for i c k k'
    by (simp add: top_fill_steady assms(4) resultRow_cong [OF assms(2,3)])
  show "top_imdb e (steady e) n results resultCount s' = top_imdb e (steady e) n results resultCount s"
    if "heap s' = heap s"
  proof -
    obtain vc k where a: "top_count (steady e) (stored s) 0 0 = (vc, k)"
      by (cases "top_count (steady e) (stored s) 0 0")
    obtain vc' k' where b: "top_count (steady e) (stored s') 0 0 = (vc', k')"
      by (cases "top_count (steady e) (stored s') 0 0")
    have n: "vc' = vc" using tc a b by simp
    show ?thesis
      by (simp add: top_imdb_def assms(1,3) a b n tf [of k' _ _ k] that Let_def
          split: prod.splits bool.splits)
  qed
qed

lemma without_dead_simps:
  "tableExists (without_dead e s) = tableExists s"
  "schema (without_dead e s) = schema s"
  "columnCount (without_dead e s) = columnCount s"
  "stored (without_dead e s) = filter (live e) (stored s)"
  "heap (without_dead e s) = heap s"
proof -
  show "tableExists (without_dead e s) = tableExists s" by (simp add: without_dead_def)
  show "schema (without_dead e s) = schema s"
    by (simp add: without_dead_def schema_def split: option.splits)
  show "columnCount (without_dead e s) = columnCount s" by (simp add: without_dead_def)
  show "heap (without_dead e s) = heap s" by (simp add: without_dead_def)
  have "stored (without_dead e s) = take (length (filter (live e) (stored s))) (filter (live e) (stored s))"
    unfolding without_dead_def stored_def [of "s\<lparr>records := _, recordCount := _\<rparr>"] by simp
  then show "stored (without_dead e s) = filter (live e) (stored s)" by simp
qed


lemma stored_after_loop:
  "length xs = recordCount t \<Longrightarrow> stored (t\<lparr>records := xs @ spare t, heap := h\<rparr>) = xs"
  "length xs = recordCount t \<Longrightarrow> stored (t\<lparr>records := xs @ spare t\<rparr>) = xs"
  by (simp_all add: stored_def)

lemma length_stored: "recordCount s \<le> length (records s) \<Longrightarrow> length (stored s) = recordCount s"
  by (simp add: stored_def)

lemma recordCount_without_dead:
  "recordCount (without_dead e s) = length (filter (live e) (stored s))"
  by (simp add: without_dead_def)

lemma update_skips_dead_records:
  assumes "recordCount s \<le> length (records s)"
  shows "fst (update e wc wv sc sv (without_dead e s)) = fst (update e wc wv sc sv s)
       \<and> stored (snd (update e wc wv sc sv (without_dead e s)))
           = filter (live e) (stored (snd (update e wc wv sc sv s)))
       \<and> (\<forall>i < recordCount s. \<not> live e (stored s ! i) \<longrightarrow>
             stored (snd (update e wc wv sc sv s)) ! i = stored s ! i)"
proof (cases "tableExists s \<and> wc \<noteq> None \<and> wv \<noteq> None \<and> sc \<noteq> None \<and> sv \<noteq> None
              \<and> 0 \<le> findColumnIndex s (the wc) \<and> 0 \<le> findColumnIndex s (the sc)")
  case False
  note w = without_dead_simps [of e s]
  note c = findColumnIndex_cong [OF w(2)]
  have r: "snd (update e wc wv sc sv s) = s"
    "snd (update e wc wv sc sv (without_dead e s)) = without_dead e s"
    "fst (update e wc wv sc sv (without_dead e s)) = fst (update e wc wv sc sv s)"
    using False by (auto simp add: update_def Let_def w(1) c)
  show ?thesis by (simp add: r w(4))
next
  case True
  note w = without_dead_simps [of e s]
  note c = findColumnIndex_cong [OF w(2)]
  define wi where "wi = nat (findColumnIndex s (the wc))"
  define si where "si = nat (findColumnIndex s (the sc))"
  obtain err rs' u' h' where
    l: "update_loop e s wi wv si (the sv) (stored s) False (heap s) = (err, rs', u', h')"
    by (cases "update_loop e s wi wv si (the sv) (stored s) False (heap s)")
  note k = update_loop_skips [OF l]
  have l2: "update_loop e (without_dead e s) wi wv si (the sv) (stored (without_dead e s)) False
              (heap (without_dead e s)) = (err, filter (live e) rs', u', h')"
    using k by (simp add: w update_loop_cong [OF w(2)])
  have len2: "length (filter (live e) rs') = recordCount (without_dead e s)"
    using update_loop_skips [OF l2] by (simp add: w(4) recordCount_without_dead)
  have len1: "length rs' = recordCount s" using k length_stored [OF assms] by simp
  define res where "res = (case err of Some result \<Rightarrow> result
                    | None \<Rightarrow> if u' then IMDB_OK else IMDB_ERROR_NO_RECORDS)"
  have r1: "update e wc wv sc sv s = (res, s\<lparr>records := rs' @ spare s, heap := h'\<rparr>)"
    using True l by (auto simp add: update_def Let_def res_def simp flip: wi_def si_def)
  have r2: "update e wc wv sc sv (without_dead e s)
             = (res, (without_dead e s)\<lparr>records := filter (live e) rs' @ spare (without_dead e s), heap := h'\<rparr>)"
    using True l2 by (auto simp add: update_def Let_def res_def w(1) c simp flip: wi_def si_def)
  show ?thesis
    using k len1 length_stored [OF assms]
    by (simp add: r1 r2 stored_after_loop(1) [OF len1] stored_after_loop(1) [OF len2])
qed

lemma updateWithMath_skips_dead_records:
  assumes "recordCount s \<le> length (records s)"
  shows "fst (updateWithMath e wc wv sc operation operand (without_dead e s))
           = fst (updateWithMath e wc wv sc operation operand s)
       \<and> stored (snd (updateWithMath e wc wv sc operation operand (without_dead e s)))
           = filter (live e) (stored (snd (updateWithMath e wc wv sc operation operand s)))
       \<and> (\<forall>i < recordCount s. \<not> live e (stored s ! i) \<longrightarrow>
             stored (snd (updateWithMath e wc wv sc operation operand s)) ! i = stored s ! i)"
proof (cases "tableExists s \<and> wc \<noteq> None \<and> wv \<noteq> None \<and> sc \<noteq> None
              \<and> 0 \<le> findColumnIndex s (the wc) \<and> 0 \<le> findColumnIndex s (the sc)
              \<and> columnType s (nat (findColumnIndex s (the sc)))
                   \<in> {IMDB_TYPE_INT32, IMDB_TYPE_EPOCH, IMDB_TYPE_FLOAT}")
  case False
  note w = without_dead_simps [of e s]
  note c = findColumnIndex_cong [OF w(2)] columnType_cong [OF w(2)]
  have r: "snd (updateWithMath e wc wv sc operation operand s) = s"
    "snd (updateWithMath e wc wv sc operation operand (without_dead e s)) = without_dead e s"
    "fst (updateWithMath e wc wv sc operation operand (without_dead e s))
       = fst (updateWithMath e wc wv sc operation operand s)"
    using False by (auto simp add: updateWithMath_def Let_def w(1) c)
  show ?thesis by (simp add: r w(4))
next
  case True
  note w = without_dead_simps [of e s]
  note c = findColumnIndex_cong [OF w(2)] columnType_cong [OF w(2)]
  define wi where "wi = nat (findColumnIndex s (the wc))"
  define si where "si = nat (findColumnIndex s (the sc))"
  obtain err rs' u' where
    l: "math_loop e s wi wv si operation operand (stored s) False = (err, rs', u')"
    by (cases "math_loop e s wi wv si operation operand (stored s) False")
  note k = math_loop_skips [OF l]
  have l2: "math_loop e (without_dead e s) wi wv si operation operand (stored (without_dead e s)) False
              = (err, filter (live e) rs', u')"
    using k by (simp add: w math_loop_cong [OF w(2)])
  have len2: "length (filter (live e) rs') = recordCount (without_dead e s)"
    using math_loop_skips [OF l2] by (simp add: w(4) recordCount_without_dead)
  have len1: "length rs' = recordCount s" using k length_stored [OF assms] by simp
  define res where "res = (case err of Some result \<Rightarrow> result
                    | None \<Rightarrow> if u' then IMDB_OK else IMDB_ERROR_NO_RECORDS)"
  have r1: "updateWithMath e wc wv sc operation operand s = (res, s\<lparr>records := rs' @ spare s\<rparr>)"
    using True l by (auto simp add: updateWithMath_def Let_def res_def simp flip: wi_def si_def)
  have r2: "updateWithMath e wc wv sc operation operand (without_dead e s)
             = (res, (without_dead e s)\<lparr>records := filter (live e) rs' @ spare (without_dead e s)\<rparr>)"
    using True l2 by (auto simp add: updateWithMath_def Let_def res_def w(1) c simp flip: wi_def si_def)
  show ?thesis
    using k len1 length_stored [OF assms]
    by (simp add: r1 r2 stored_after_loop(2) [OF len1] stored_after_loop(2) [OF len2])
qed

lemma live_demo_records:
  "live demo_env (demo_record i nm sn ex) = (ex = 0 \<or> sint (150 - ex) < 0)"
  by (auto simp add: live_def demo_record_def isRecordExpired_def demo_env_def)

lemma isRecordExpired_demo_env:
  "isRecordExpired demo_env ex = (ex \<noteq> 0 \<and> 0 \<le> sint (150 - ex))"
  by (simp add: isRecordExpired_def demo_env_def)

text \<open>
  C1.  \<open>deleteRecords\<close> does not skip expired records: its loop tests \<open>isValid\<close> only.
  In the example store at clock 150 the record with id 2 expired at 100.  \<open>countWhere\<close>,
  \<open>select\<close> and \<open>update\<close> do not see it, and \<open>deleteRecords\<close> on the same condition
  returns \<open>IMDB_OK\<close> and removes it.
\<close>

theorem deleteRecords_deletes_expired_record:
  "isValid (stored demo_store ! 1)
   \<and> isRecordExpired demo_env (expiryMillis (stored demo_store ! 1))
   \<and> matches demo_env demo_store 0 (Some (Int32Value 2)) (stored demo_store ! 1)
   \<and> countWhere demo_env (Some ''id'') (Some (Int32Value 2)) demo_store = 0
   \<and> fst (select demo_env (Some ''name'') (Some ''id'') (Some (Int32Value 2))
            (Some (uninitResult demo_env)) demo_store) = IMDB_ERROR_NO_RECORDS
   \<and> update demo_env (Some ''id'') (Some (Int32Value 2)) (Some ''seen'') (Some (EpochValue 9))
        demo_store = (IMDB_ERROR_NO_RECORDS, demo_store)
   \<and> fst (deleteRecords demo_env (Some ''id'') (Some (Int32Value 2)) demo_store) = IMDB_OK
   \<and> stored (snd (deleteRecords demo_env (Some ''id'') (Some (Int32Value 2)) demo_store))
       = [demo_record 1 ''a'' 1 0, demo_record 3 ''c'' 7 0]"
proof -
  have te: "tableExists demo_store" by (simp add: demo_store_def)
  have rc: "recordCount demo_store \<le> length (records demo_store)" by (simp add: demo_store_def)
  have a: "isValid (stored demo_store ! 1)"
    "isRecordExpired demo_env (expiryMillis (stored demo_store ! 1))"
    by (simp_all add: stored_demo_store demo_record_sel isRecordExpired_demo_env)
  have m: "matches demo_env demo_store 0 (Some (Int32Value 2)) (stored demo_store ! 1)"
    by (simp add: stored_demo_store matches_demo_id)
  have cw: "countWhere demo_env (Some ''id'') (Some (Int32Value 2)) demo_store = 0"
    by (simp add: countWhere_def te findColumnIndex_demo_store countWhere_loop_filter
        stored_demo_store matches_demo_id live_demo_records)
  have sl: "fst (select demo_env (Some ''name'') (Some ''id'') (Some (Int32Value 2))
            (Some (uninitResult demo_env)) demo_store) = IMDB_ERROR_NO_RECORDS"
    by (simp add: select_def te findColumnIndex_demo_store stored_demo_store matches_demo_id
        demo_record_sel isRecordExpired_demo_env Let_def)
  have ex: "\<exists>r \<in> set (stored demo_store). isValid r \<and> matches demo_env demo_store 0 (Some (Int32Value 2)) r"
    by (simp add: stored_demo_store matches_demo_id demo_record_sel)
  have fl: "filter (\<lambda>r. isValid r \<and> \<not> matches demo_env demo_store 0 (Some (Int32Value 2)) r)
              (stored demo_store) = [demo_record 1 ''a'' 1 0, demo_record 3 ''c'' 7 0]"
    by (simp add: stored_demo_store matches_demo_id demo_record_sel)
  have up: "update demo_env (Some ''id'') (Some (Int32Value 2)) (Some ''seen'') (Some (EpochValue 9))
        demo_store = (IMDB_ERROR_NO_RECORDS, demo_store)"
    by (simp add: update_def te findColumnIndex_demo_store stored_demo_store
          update_loop.simps(2) matches_demo_id demo_record_sel isRecordExpired_demo_env)
       (simp add: spare_def demo_store_def)
  show ?thesis
    using a m cw sl up deleteRecords_stored(1,2) [OF rc te findColumnIndex_demo_store(1) [unfolded int_ops(1) [symmetric]] ex]
    by (simp add: fl)
qed

section \<open>The heap-limit check\<close>

text \<open>
  \<open>insert\<close>, \<open>createTable\<close> and \<open>loadFromFile\<close> test the free heap before they allocate:
  below the limit they fail and the heap is as it was.
\<close>

lemma heap_limit_checked:
  assumes "\<not> checkHeapLimit e (heap s)"
  shows "heap (snd (insert_imdb e values ttl s)) = heap s"
    and "fst (insert_imdb e values ttl s) \<noteq> IMDB_OK"
    and "tableExists s \<and> values \<noteq> None \<longrightarrow> fst (insert_imdb e values ttl s) = IMDB_ERROR_HEAP_LIMIT"
    and "heap (snd (createTable e cols cnt s)) = heap s"
    and "fst (createTable e cols cnt s) \<noteq> IMDB_OK"
    and "\<not> tableExists s \<and> cols \<noteq> None \<and> cnt \<noteq> 0
           \<longrightarrow> fst (createTable e cols cnt s) = IMDB_ERROR_HEAP_LIMIT"
    and "heap (snd (loadFromFile e filename io s)) = heap s"
    and "fst (loadFromFile e filename io s) \<noteq> IMDB_OK"
  using assms
  by (auto simp add: insert_imdb_def createTable_def loadFromFile_def load_body_def
      split: option.splits prod.splits)

text \<open>
  C2.  \<open>update\<close>, \<open>selectAll\<close> and \<open>top\<close> allocate without the check.  On a device that
  reports 0 free bytes, \<open>insert\<close> returns \<open>IMDB_ERROR_HEAP_LIMIT\<close> and leaves the store as
  it is, while \<open>update\<close> of a string column, \<open>selectAll\<close> and \<open>top\<close> each make an
  allocation request and return \<open>IMDB_OK\<close>.
\<close>

theorem allocation_without_heap_check:
  "\<not> checkHeapLimit demo_env_low (heap demo_store)
   \<and> insert_imdb demo_env_low
        (Some (\<lambda>i. [Some (Int32Value 4), Some (StringValue (Some ''d'')), Some (EpochValue 0)] ! i)) 0
        demo_store = (IMDB_ERROR_HEAP_LIMIT, demo_store)
   \<and> fst (update demo_env_low (Some ''id'') (Some (Int32Value 1)) (Some ''name'')
            (Some (StringValue (Some ''z''))) demo_store) = IMDB_OK
   \<and> mallocCalls (heap (snd (update demo_env_low (Some ''id'') (Some (Int32Value 1)) (Some ''name'')
            (Some (StringValue (Some ''z''))) demo_store))) = mallocCalls (heap demo_store) + 1
   \<and> stored (snd (update demo_env_low (Some ''id'') (Some (Int32Value 1)) (Some ''name'')
            (Some (StringValue (Some ''z''))) demo_store))
       = [demo_record 1 ''z'' 1 0, demo_record 2 ''b'' 0x80000000 100, demo_record 3 ''c'' 7 0]
   \<and> fst (selectAll demo_env_low (steady demo_env_low) (Some ''id'') (Some (Int32Value 1))
            (Some None) (Some 0) demo_store) = IMDB_OK
   \<and> mallocCalls (snd (snd (snd (selectAll demo_env_low (steady demo_env_low) (Some ''id'')
         (Some (Int32Value 1)) (Some None) (Some 0) demo_store)))) = mallocCalls (heap demo_store) + 1
   \<and> fst (top_imdb demo_env_low (steady demo_env_low) 1 (Some None) (Some 0) demo_store) = IMDB_OK
   \<and> mallocCalls (snd (snd (snd (top_imdb demo_env_low (steady demo_env_low) 1 (Some None) (Some 0)
         demo_store)))) = mallocCalls (heap demo_store) + 1"
proof -
  have te: "tableExists demo_store" by (simp add: demo_store_def)
  have hp: "heap demo_store = \<lparr>mallocCalls = 8, liveBlocks = 8\<rparr>" by (simp add: demo_store_def)
  have env: "millis demo_env_low = 150" "mallocOk demo_env_low = (\<lambda>k. True)"
    "getFreeHeap demo_env_low = (\<lambda>k. 0)"
    by (simp_all add: demo_env_low_def demo_env_def)
  have ex: "isRecordExpired demo_env_low ex = (ex \<noteq> 0 \<and> 0 \<le> sint (150 - ex))" for ex
    by (simp add: isRecordExpired_def env)
  have mt: "matches demo_env_low demo_store 0 (Some (Int32Value v)) (demo_record i nm sn x) = (i = v)"
    for v i nm sn x
    by (simp add: matches_def columnType_demo_store fieldAt_def demo_record_def)
  have c0: "\<not> checkHeapLimit demo_env_low (heap demo_store)"
    by (simp add: checkHeapLimit_def env IMDB_MIN_HEAP_BYTES_def)
  have ins: "insert_imdb demo_env_low
        (Some (\<lambda>i. [Some (Int32Value 4), Some (StringValue (Some ''d'')), Some (EpochValue 0)] ! i)) 0
        demo_store = (IMDB_ERROR_HEAP_LIMIT, demo_store)"
    using c0 te by (simp add: insert_imdb_def)
  have ul: "update_loop demo_env_low demo_store 0 (Some (Int32Value 1)) (Suc 0) (StringValue (Some ''z''))
              (stored demo_store) False (heap demo_store)
            = (None, [demo_record 1 ''z'' 1 0, demo_record 2 ''b'' 0x80000000 100, demo_record 3 ''c'' 7 0],
               True, \<lparr>mallocCalls = 9, liveBlocks = 8\<rparr>)"
    by (simp add: stored_demo_store update_loop.simps(2) mt demo_record_sel ex hp
          columnType_demo_store getField_def fieldAt_def setField_def copyFieldValue_def
          malloc_def free_def env strlen_def c_str_def IMDB_MAX_STRING_LENGTH_def)
  have up: "update demo_env_low (Some ''id'') (Some (Int32Value 1)) (Some ''name'')
            (Some (StringValue (Some ''z''))) demo_store
          = (IMDB_OK, demo_store\<lparr>records := [demo_record 1 ''z'' 1 0, demo_record 2 ''b'' 0x80000000 100,
                 demo_record 3 ''c'' 7 0] @ spare demo_store, heap := \<lparr>mallocCalls = 9, liveBlocks = 8\<rparr>\<rparr>)"
    by (simp add: update_def te findColumnIndex_demo_store ul)
  have st: "stored (demo_store\<lparr>records := [demo_record 1 ''z'' 1 0, demo_record 2 ''b'' 0x80000000 100,
                 demo_record 3 ''c'' 7 0] @ spare demo_store, heap := \<lparr>mallocCalls = 9, liveBlocks = 8\<rparr>\<rparr>)
           = [demo_record 1 ''z'' 1 0, demo_record 2 ''b'' 0x80000000 100, demo_record 3 ''c'' 7 0]"
    by (simp add: stored_def demo_store_def)
  have sa: "fst (selectAll demo_env_low (steady demo_env_low) (Some ''id'') (Some (Int32Value 1))
                   (Some None) (Some 0) demo_store) = IMDB_OK"
    "mallocCalls (snd (snd (snd (selectAll demo_env_low (steady demo_env_low) (Some ''id'')
         (Some (Int32Value 1)) (Some None) (Some 0) demo_store)))) = 9"
    by (simp_all add: selectAll_def te findColumnIndex_demo_store stored_demo_store mt
          demo_record_sel isRecordExpired_at_steady ex malloc_def env hp Let_def)
  have tp: "fst (top_imdb demo_env_low (steady demo_env_low) 1 (Some None) (Some 0) demo_store) = IMDB_OK"
    "mallocCalls (snd (snd (snd (top_imdb demo_env_low (steady demo_env_low) 1 (Some None) (Some 0)
         demo_store)))) = 9"
    by (simp_all add: top_imdb_def te stored_demo_store demo_record_sel isRecordExpired_at_steady
          ex malloc_def env hp Let_def)
  show ?thesis using c0 ins sa tp st by (simp add: up hp)
qed

section \<open>A failed insert leaves the store as it was\<close>

lemma liveBlocks_free_strings:
  "liveBlocks (free_strings cs fs h) = liveBlocks h - ownedStrings cs fs"
proof (induction cs fs h rule: free_strings.induct)
  case (1 c cs f fs h)
  then show ?case by (auto simp add: ownedStrings_def free_def)
qed (simp_all add: ownedStrings_def)

lemma zip_take_right: "zip xs (take (length xs) ys) = zip xs ys"
  by (induction xs arbitrary: ys)
     (auto simp add: take_Cons split: list.splits nat.splits, case_tac ys, simp_all)

lemma mallocCalls_free_strings [simp]:
  "mallocCalls (free_strings cs fs h) = mallocCalls h"
  by (induction cs fs h rule: free_strings.induct) (simp_all add: free_def)

lemma zip_take_left: "zip (take i cs) fs = zip (take i cs) (take i fs)"
proof (cases "i \<le> length cs")
  case True
  then have "length (take i cs) = i" by simp
  then show ?thesis using zip_take_right [of "take i cs" fs] by simp
next
  case False
  then have "take i cs = cs" by simp
  moreover have "zip cs (take i fs) = zip cs fs"
    using False zip_take_right [of cs "take i fs"] zip_take_right [of cs fs]
    by (simp add: min_def)
  ultimately show ?thesis by simp
qed

lemma ownedStrings_take_Suc:
  assumes "i < length cs" and "i < length fs"
  shows "ownedStrings (take (Suc i) cs) (fs[i := f]) =
           ownedStrings (take i cs) fs
           + (if type (cs ! i) = IMDB_TYPE_STRING \<and> get_stringValue f \<noteq> None then 1 else 0)"
proof -
  have "zip (take (Suc i) cs) (fs[i := f]) = take (Suc i) (zip cs (fs[i := f]))"
    unfolding take_zip using zip_take_left [of "Suc i" cs "fs[i := f]"] by simp
  also have "\<dots> = take i (zip cs (fs[i := f])) @ [(cs ! i, f)]"
    using assms by (simp add: take_Suc_conv_app_nth)
  also have "take i (zip cs (fs[i := f])) = zip (take i cs) (take i fs)"
    by (simp add: take_zip)
  also have "zip (take i cs) (take i fs) = zip (take i cs) fs"
    using zip_take_left [of i cs fs] by simp
  finally show ?thesis by (simp add: ownedStrings_def)
qed

lemma ownedStrings_take_update:
  "ownedStrings (take i cs) (fs[i := f]) = ownedStrings (take i cs) fs"
proof -
  have "zip (take i cs) (fs[i := f]) = zip (take i cs) (take i (fs[i := f]))"
    by (rule zip_take_left)
  also have "\<dots> = zip (take i cs) (take i fs)" by simp
  also have "\<dots> = zip (take i cs) fs"
    using zip_take_left [of i cs fs] by simp
  finally show ?thesis by (simp add: ownedStrings_def)
qed

lemma copyFieldValue_ledger:
  assumes "copyFieldValue e dest src ty h = (res, f, h1)"
  shows "mallocCalls h \<le> mallocCalls h1"
    and "res = IMDB_OK \<longrightarrow>
           liveBlocks h1 = liveBlocks h
             + (if ty = IMDB_TYPE_STRING \<and> get_stringValue f \<noteq> None then 1 else 0)"
    and "res = IMDB_OK \<and> ty = IMDB_TYPE_STRING \<longrightarrow> get_stringValue f \<noteq> None \<and> get_stringValue src \<noteq> None"
    and "res \<noteq> IMDB_OK \<longrightarrow> liveBlocks h1 = liveBlocks h"
  using assms
  by (auto simp add: copyFieldValue_def malloc_def Let_def
      split: IMDBDataType.splits option.splits if_splits)

lemma insert_loop_failure:
  assumes "insert_loop e cols vals todo i fs h = (res, fs', h')" and "res \<noteq> IMDB_OK"
    and "cols = dn @ todo" and "i = length dn" and "length fs = length cols"
  shows "liveBlocks h' = liveBlocks h - ownedStrings (take i cols) fs - 1"
  using assms
proof (induction todo arbitrary: i fs h dn)
  case Nil
  then show ?case by simp
next
  case (Cons c todo)
  have ilen: "i < length cols" "i < length fs" "cols ! i = c"
    using Cons.prems(3,4,5) by simp_all
  show ?case
  proof (cases "vals i")
    case None
    then have "h' = insert_cleanup cols fs i h" using Cons.prems(1) by auto
    then show ?thesis by (simp add: insert_cleanup_def free_def liveBlocks_free_strings)
  next
    case (Some v)
    obtain r f h1 where c: "copyFieldValue e (fs ! i) v (type c) h = (r, f, h1)"
      by (cases "copyFieldValue e (fs ! i) v (type c) h")
    show ?thesis
    proof (cases "r = IMDB_OK")
      case False
      then have "h' = insert_cleanup cols (fs[i := f]) i h1"
        using Cons.prems(1) Some c by auto
      moreover have "liveBlocks h1 = liveBlocks h" using copyFieldValue_ledger(4) [OF c] False by simp
      ultimately show ?thesis
        by (simp add: insert_cleanup_def free_def liveBlocks_free_strings ownedStrings_take_update)
    next
      case True
      then have l: "insert_loop e cols vals todo (i + 1) (fs[i := f]) h1 = (res, fs', h')"
        using Cons.prems(1) Some c by simp
      have "liveBlocks h' = liveBlocks h1 - ownedStrings (take (i + 1) cols) (fs[i := f]) - 1"
        by (rule Cons.IH [OF l Cons.prems(2), of "dn @ [c]"]) (use Cons.prems in simp_all)
      moreover have "liveBlocks h1 = liveBlocks h
             + (if type c = IMDB_TYPE_STRING \<and> get_stringValue f \<noteq> None then 1 else 0)"
        using copyFieldValue_ledger(2) [OF c] True by simp
      moreover have "ownedStrings (take (i + 1) cols) (fs[i := f])
           = ownedStrings (take i cols) fs
             + (if type c = IMDB_TYPE_STRING \<and> get_stringValue f \<noteq> None then 1 else 0)"
        using ownedStrings_take_Suc [OF ilen(1,2), of f] ilen(3) by simp
      ultimately show ?thesis by simp
    qed
  qed
qed

lemma insert_loop_ok:
  assumes "insert_loop e cols vals todo i fs h = (IMDB_OK, fs', h')"
  shows "\<forall>j < length todo. vals (i + j) \<noteq> None
           \<and> (type (todo ! j) = IMDB_TYPE_STRING \<longrightarrow> get_stringValue (the (vals (i + j))) \<noteq> None)"
  using assms
proof (induction todo arbitrary: i fs h)
  case Nil
  then show ?case by simp
next
  case (Cons c todo)
  from Cons.prems obtain v where v: "vals i = Some v" by (cases "vals i") simp_all
  obtain r f h1 where c: "copyFieldValue e (fs ! i) v (type c) h = (r, f, h1)"
    by (cases "copyFieldValue e (fs ! i) v (type c) h")
  have r: "r = IMDB_OK" using Cons.prems v c by (auto split: if_splits)
  then have l: "insert_loop e cols vals todo (i + 1) (fs[i := f]) h1 = (IMDB_OK, fs', h')"
    using Cons.prems v c by simp
  note ih = Cons.IH [OF l]
  have s: "type c = IMDB_TYPE_STRING \<longrightarrow> get_stringValue v \<noteq> None"
    using copyFieldValue_ledger(3) [OF c] r by simp
  show ?case
  proof (intro allI impI)
    fix j assume "j < length (c # todo)"
    then show "vals (i + j) \<noteq> None
           \<and> (type ((c # todo) ! j) = IMDB_TYPE_STRING \<longrightarrow> get_stringValue (the (vals (i + j))) \<noteq> None)"
      using ih v s by (cases j) auto
  qed
qed

lemma growRecordArray_keeps:
  assumes "growRecordArray e s = (r, s1)" and "recordCount s \<le> length (records s)"
  shows "recordCount s1 = recordCount s" and "stored s1 = stored s"
    and "tableExists s1 = tableExists s" and "columns s1 = columns s"
    and "columnCount s1 = columnCount s" and "liveBlocks (heap s1) = liveBlocks (heap s)"
    and "recordCount s1 \<le> length (records s1)"
  using assms
  by (auto simp add: growRecordArray_def Let_def realloc_def stored_def
      split: if_splits prod.splits bool.splits)

lemma failed_insert_keeps:
  assumes "recordCount s \<le> length (records s)"
    and "fst (insert_imdb e values ttl s) \<noteq> IMDB_OK"
  shows "recordCount (snd (insert_imdb e values ttl s)) = recordCount s"
    and "stored (snd (insert_imdb e values ttl s)) = stored s"
    and "tableExists (snd (insert_imdb e values ttl s)) = tableExists s"
    and "columns (snd (insert_imdb e values ttl s)) = columns s"
    and "columnCount (snd (insert_imdb e values ttl s)) = columnCount s"
    and "liveBlocks (heap (snd (insert_imdb e values ttl s))) = liveBlocks (heap s)"
proof -
  let ?goal = "\<lambda>s'. recordCount s' = recordCount s \<and> stored s' = stored s
      \<and> tableExists s' = tableExists s \<and> columns s' = columns s
      \<and> columnCount s' = columnCount s \<and> liveBlocks (heap s') = liveBlocks (heap s)"
  have "?goal (snd (insert_imdb e values ttl s))"
  proof (cases "tableExists s \<and> values \<noteq> None \<and> checkHeapLimit e (heap s)
                \<and> \<not> unat ttl > IMDB_MAX_TTL_MS")
    case False
    then have "snd (insert_imdb e values ttl s) = s"
      by (auto simp add: insert_imdb_def split: option.splits)
    then show ?thesis by simp
  next
    case True
    then obtain vals where vals: "values = Some vals" by auto
    obtain r s1 where g: "(if recordCount s \<ge> recordCapacity s then growRecordArray e s else (IMDB_OK, s)) = (r, s1)"
      by (cases "(if recordCount s \<ge> recordCapacity s then growRecordArray e s else (IMDB_OK, s))")
    have k: "recordCount s1 = recordCount s" "stored s1 = stored s"
      "tableExists s1 = tableExists s" "columns s1 = columns s"
      "columnCount s1 = columnCount s" "liveBlocks (heap s1) = liveBlocks (heap s)"
      using g growRecordArray_keeps [OF _ assms(1), of e r s1]
      by (auto split: if_splits)
    show ?thesis
    proof (cases "r = IMDB_OK")
      case False
      then have "snd (insert_imdb e values ttl s) = s1"
        using True vals g by (simp add: insert_imdb_def)
      then show ?thesis using k by simp
    next
      case rok: True
      obtain ok h1 where m: "malloc e (heap s1) = (ok, h1)" by (cases "malloc e (heap s1)")
      have st: "stored (s1\<lparr>records := (records s1)[recordCount s1 := x], heap := hh\<rparr>) = stored s1"
        for x hh by (simp add: stored_def)
      show ?thesis
      proof (cases ok)
        case False
        then have "snd (insert_imdb e values ttl s)
            = s1\<lparr>records := (records s1)[recordCount s1 := (records s1 ! recordCount s1)\<lparr>rfields := None\<rparr>],
                 heap := h1\<rparr>"
          using True vals g rok m by (simp add: insert_imdb_def Let_def)
        moreover have "liveBlocks h1 = liveBlocks (heap s1)"
          using m False by (auto simp add: malloc_def split: if_splits)
        ultimately show ?thesis using k st by simp
      next
        case mok: True
        then have lb: "liveBlocks h1 = liveBlocks (heap s1) + 1"
          using m by (auto simp add: malloc_def split: if_splits)
        obtain res fs h2 where l: "insert_loop e (schema s1) vals (schema s1) 0
                                (map (\<lambda>c. zeroValue (type c)) (schema s1)) h1 = (res, fs, h2)"
          by (cases "insert_loop e (schema s1) vals (schema s1) 0
                                (map (\<lambda>c. zeroValue (type c)) (schema s1)) h1")
        have res: "res \<noteq> IMDB_OK"
          using assms(2) True vals g rok m mok l by (auto simp add: insert_imdb_def Let_def)
        then have "snd (insert_imdb e values ttl s)
            = s1\<lparr>records := (records s1)[recordCount s1 := (records s1 ! recordCount s1)\<lparr>rfields := Some fs\<rparr>],
                 heap := h2\<rparr>"
          using True vals g rok m mok l by (simp add: insert_imdb_def Let_def)
        moreover have "liveBlocks h2 = liveBlocks (heap s1)"
          using insert_loop_failure [OF l res, of "[]"] lb by (simp add: ownedStrings_def)
        ultimately show ?thesis using k st by simp
      qed
    qed
  qed
  then show "recordCount (snd (insert_imdb e values ttl s)) = recordCount s"
    and "stored (snd (insert_imdb e values ttl s)) = stored s"
    and "tableExists (snd (insert_imdb e values ttl s)) = tableExists s"
    and "columns (snd (insert_imdb e values ttl s)) = columns s"
    and "columnCount (snd (insert_imdb e values ttl s)) = columnCount s"
    and "liveBlocks (heap (snd (insert_imdb e values ttl s))) = liveBlocks (heap s)"
    by simp_all
qed

lemma insert_bad_value_fails:
  assumes "i < length (schema s)"
    and "vals i = None \<or> (type (schema s ! i) = IMDB_TYPE_STRING \<and> get_stringValue (the (vals i)) = None)"
  shows "fst (insert_imdb e (Some vals) ttl s) \<noteq> IMDB_OK"
proof
  assume ok: "fst (insert_imdb e (Some vals) ttl s) = IMDB_OK"
  obtain r s1 where g: "(if recordCount s \<ge> recordCapacity s then growRecordArray e s else (IMDB_OK, s)) = (r, s1)"
    by (cases "(if recordCount s \<ge> recordCapacity s then growRecordArray e s else (IMDB_OK, s))")
  have sc: "schema s1 = schema s"
    using g by (auto simp add: growRecordArray_def Let_def realloc_def schema_def
        split: if_splits prod.splits bool.splits option.splits)
  obtain okm h1 where m: "malloc e (heap s1) = (okm, h1)" by (cases "malloc e (heap s1)")
  obtain res fs h2 where l: "insert_loop e (schema s1) vals (schema s1) 0
                                (map (\<lambda>c. zeroValue (type c)) (schema s1)) h1 = (res, fs, h2)"
    by (cases "insert_loop e (schema s1) vals (schema s1) 0
                                (map (\<lambda>c. zeroValue (type c)) (schema s1)) h1")
  have "res = IMDB_OK"
    using ok g m l by (auto simp add: insert_imdb_def Let_def split: if_splits bool.splits)
  with l have "insert_loop e (schema s1) vals (schema s1) 0
                                (map (\<lambda>c. zeroValue (type c)) (schema s1)) h1 = (IMDB_OK, fs, h2)"
    by simp
  from insert_loop_ok [OF this] assms sc show False by auto
qed


text \<open>
  C4.  An \<open>insert\<close> that fails, and every \<open>insert\<close> given a null field value or a null
  string for a string column fails, has freed what it allocated for the attempted
  record (as many blocks are live after the call as before), has not incremented the
  record count and has left the stored records and the schema as they were; every
  query answers on the store after the call what it answers on the store before it.
  (\<open>selectAll\<close> and \<open>top\<close> allocate their result, so they are compared from the same
  heap.)
\<close>

theorem failed_insert_is_atomic:
  assumes "recordCount s \<le> length (records s)"
    and "fst (insert_imdb e values ttl s) \<noteq> IMDB_OK
         \<or> (\<exists>vals i. values = Some vals \<and> i < length (schema s)
               \<and> (vals i = None
                    \<or> type (schema s ! i) = IMDB_TYPE_STRING \<and> get_stringValue (the (vals i)) = None))"
    and "s' = snd (insert_imdb e values ttl s)"
  shows "fst (insert_imdb e values ttl s) \<noteq> IMDB_OK
       \<and> liveBlocks (heap s') = liveBlocks (heap s)
       \<and> recordCount s' = recordCount s \<and> stored s' = stored s
       \<and> tableExists s' = tableExists s \<and> columns s' = columns s \<and> columnCount s' = columnCount s
       \<and> select q column whereColumn whereValue result s' = select q column whereColumn whereValue result s
       \<and> count q s' = count q s
       \<and> countWhere q whereColumn whereValue s' = countWhere q whereColumn whereValue s
       \<and> min_imdb q column result s' = min_imdb q column result s
       \<and> max_imdb q column result s' = max_imdb q column result s
       \<and> selectAll q clock whereColumn whereValue results resultCount (s'\<lparr>heap := heap s\<rparr>)
           = selectAll q clock whereColumn whereValue results resultCount s
       \<and> top_imdb q clock n results resultCount (s'\<lparr>heap := heap s\<rparr>)
           = top_imdb q clock n results resultCount s"
proof -
  have f: "fst (insert_imdb e values ttl s) \<noteq> IMDB_OK"
    using assms(2) insert_bad_value_fails by blast
  note k = failed_insert_keeps [OF assms(1) f, folded assms(3)]
  have sc: "schema s' = schema s" using k(4,5) by (simp add: schema_def split: option.splits)
  have fl: "filter (live q) (stored s') = filter (live q) (stored s)" using k(2) by simp
  note qs = queries_see_live_records_only [OF k(3) sc k(5) fl]
  have sc2: "schema (s'\<lparr>heap := heap s\<rparr>) = schema s"
    using k(4,5) by (simp add: schema_def split: option.splits)
  have st2: "stored (s'\<lparr>heap := heap s\<rparr>) = stored s"
    using k(2) by (simp add: stored_def)
  have te2: "tableExists (s'\<lparr>heap := heap s\<rparr>) = tableExists s" using k(3) by simp
  have cc2: "columnCount (s'\<lparr>heap := heap s\<rparr>) = columnCount s" using k(5) by simp
  have hp2: "heap (s'\<lparr>heap := heap s\<rparr>) = heap s" by simp
  note qh = selectAll_top_cong [OF te2 sc2 cc2 st2 hp2]
  show ?thesis
    using f k qs(1-5) qh by simp
qed

theorem failed_insert_is_atomic_witness:
  "insert_imdb demo_env
     (Some (\<lambda>i. [Some (Int32Value 4), Some (StringValue (Some ''d'')), None] ! i)) 0 demo_store
     = (IMDB_ERROR_INVALID_VALUE,
        demo_store\<lparr>records := [demo_record 1 ''a'' 1 0, demo_record 2 ''b'' 0x80000000 100,
                                demo_record 3 ''c'' 7 0,
                                (uninitRecord demo_env)\<lparr>rfields :=
                                   Some [Int32Value 4, StringValue (Some ''d''), EpochValue 0]\<rparr>],
                    heap := \<lparr>mallocCalls = 10, liveBlocks = 8\<rparr>\<rparr>)
   \<and> liveBlocks (heap (snd (insert_imdb demo_env
         (Some (\<lambda>i. [Some (Int32Value 4), Some (StringValue (Some ''d'')), None] ! i)) 0 demo_store)))
       = liveBlocks (heap demo_store)
   \<and> stored (snd (insert_imdb demo_env
         (Some (\<lambda>i. [Some (Int32Value 4), Some (StringValue (Some ''d'')), None] ! i)) 0 demo_store))
       = stored demo_store
   \<and> count demo_env (snd (insert_imdb demo_env
         (Some (\<lambda>i. [Some (Int32Value 4), Some (StringValue (Some ''d'')), None] ! i)) 0 demo_store))
       = count demo_env demo_store"
proof -
  define vals :: "nat \<Rightarrow> IMDBFieldValue option"
    where "vals = (\<lambda>i. [Some (Int32Value 4), Some (StringValue (Some ''d'')), None] ! i)"
  have rc: "recordCount demo_store \<le> length (records demo_store)" by (simp add: demo_store_def)
  have bad: "fst (insert_imdb demo_env (Some vals) 0 demo_store) \<noteq> IMDB_OK
         \<or> (\<exists>vs i. Some vals = Some vs \<and> i < length (schema demo_store)
               \<and> (vs i = None
                    \<or> type (schema demo_store ! i) = IMDB_TYPE_STRING \<and> get_stringValue (the (vs i)) = None))"
    by (rule disjI2, rule exI [of _ vals], rule exI [of _ 2])
       (simp add: schema_demo_store demo_schema_def vals_def)
  have ev: "insert_imdb demo_env (Some vals) 0 demo_store
     = (IMDB_ERROR_INVALID_VALUE,
        demo_store\<lparr>records := [demo_record 1 ''a'' 1 0, demo_record 2 ''b'' 0x80000000 100,
                                demo_record 3 ''c'' 7 0,
                                (uninitRecord demo_env)\<lparr>rfields :=
                                   Some [Int32Value 4, StringValue (Some ''d''), EpochValue 0]\<rparr>],
                    heap := \<lparr>mallocCalls = 10, liveBlocks = 8\<rparr>\<rparr>)"
  proof -
    have env: "mallocOk demo_env = (\<lambda>k. True)" "getFreeHeap demo_env = (\<lambda>k. 100000)"
      by (simp_all add: demo_env_def)
    have d: "tableExists demo_store" "recordCount demo_store = 3" "recordCapacity demo_store = 4"
      "heap demo_store = \<lparr>mallocCalls = 8, liveBlocks = 8\<rparr>"
      "records demo_store = [demo_record 1 ''a'' 1 0, demo_record 2 ''b'' 0x80000000 100,
                 demo_record 3 ''c'' 7 0, uninitRecord demo_env]"
      by (simp_all add: demo_store_def)
    have il: "insert_loop demo_env demo_schema vals demo_schema 0
                (map (\<lambda>c. zeroValue (type c)) demo_schema) \<lparr>mallocCalls = 9, liveBlocks = 9\<rparr>
              = (IMDB_ERROR_INVALID_VALUE, [Int32Value 4, StringValue (Some ''d''), EpochValue 0],
                 \<lparr>mallocCalls = 10, liveBlocks = 8\<rparr>)"
      by (simp add: demo_schema_def vals_def copyFieldValue_def malloc_def env insert_cleanup_def
          free_def strlen_def c_str_def IMDB_MAX_STRING_LENGTH_def)
    show ?thesis
      by (simp add: insert_imdb_def schema_demo_store d checkHeapLimit_def env
          IMDB_MIN_HEAP_BYTES_def IMDB_MAX_TTL_MS_def malloc_def il)
  qed
  from failed_insert_is_atomic [OF rc bad refl, of demo_env]
  have "liveBlocks (heap (snd (insert_imdb demo_env (Some vals) 0 demo_store))) = liveBlocks (heap demo_store)"
    and "stored (snd (insert_imdb demo_env (Some vals) 0 demo_store)) = stored demo_store"
    and "count demo_env (snd (insert_imdb demo_env (Some vals) 0 demo_store)) = count demo_env demo_store"
    by blast+
  then show ?thesis using ev unfolding vals_def by simp
qed

section \<open>Saving and loading\<close>

text \<open>Bytes read back are the bytes written.\<close>

lemma char_of_byte_of_char [simp]: "char_of_byte (byte_of_char c) = c"
proof -
  have "unat (of_nat (of_char c :: nat) :: 8 word) = of_char c mod 256"
    by (simp add: unat_of_nat)
  then show ?thesis
    unfolding char_of_byte_def byte_of_char_def by (simp only: char_of_mod_256 char_of_char)
qed

lemma map_char_of_byte_of_char [simp]:
  "map char_of_byte (map byte_of_char s) = s"
  "map (char_of_byte \<circ> byte_of_char) s = s"
  by (induction s) simp_all

lemma u32_of_bytes_of_u32 [simp]: "u32_of_bytes (bytes_of_u32 w) = w"
proof -
  have "(ucast (ucast w :: 8 word) OR push_bit 8 (ucast (ucast (drop_bit 8 w) :: 8 word))
        OR push_bit 16 (ucast (ucast (drop_bit 16 w) :: 8 word))
        OR push_bit 24 (ucast (ucast (drop_bit 24 w) :: 8 word)) :: 32 word) = w"
  proof (rule bit_word_eqI)
    fix n assume "n < LENGTH(32)"
    then have n: "n < 32" by simp
    consider "n < 8" | "8 \<le> n" "n < 16" | "16 \<le> n" "n < 24" | "24 \<le> n" "n < 32"
      using n by linarith
    then show "bit (ucast (ucast w :: 8 word) OR push_bit 8 (ucast (ucast (drop_bit 8 w) :: 8 word))
        OR push_bit 16 (ucast (ucast (drop_bit 16 w) :: 8 word))
        OR push_bit 24 (ucast (ucast (drop_bit 24 w) :: 8 word)) :: 32 word) n = bit w n"
      by cases (auto simp add: bit_simps)
  qed
  then show ?thesis by simp
qed

lemma u16_of_bytes_of_u16 [simp]: "u16_of_bytes (bytes_of_u16 w) = w"
proof -
  have "(ucast (ucast w :: 8 word) OR push_bit 8 (ucast (ucast (drop_bit 8 w) :: 8 word)) :: 16 word) = w"
  proof (rule bit_word_eqI)
    fix n assume "n < LENGTH(16)"
    then have n: "n < 16" by simp
    consider "n < 8" | "8 \<le> n" "n < 16"
      using n by linarith
    then show "bit (ucast (ucast w :: 8 word) OR push_bit 8 (ucast (ucast (drop_bit 8 w) :: 8 word)) :: 16 word) n
                 = bit w n"
      by cases (auto simp add: bit_simps)
  qed
  then show ?thesis by simp
qed

lemma mac_of_bytes_of_mac [simp]: "mac_of_bytes (bytes_of_mac m) = m"
  by (cases m) simp

lemma length_bytes [simp]:
  "length (bytes_of_u32 w) = 4" "length (bytes_of_u16 v) = 2" "length (bytes_of_mac m) = 6"
  by (simp_all, cases m, simp)

lemma type_of_byte_of_type: "validType t \<Longrightarrow> type_of_byte (byte_of_type t) = t"
  by (cases t) (simp_all add: validType_def type_of_byte_def)

lemma read_bytes_append: "length a = n \<Longrightarrow> read_bytes n (a @ rest) = Some (a, rest)"
  by (simp add: read_bytes_def)

declare bytes_of_u32.simps [simp del] bytes_of_u16.simps [simp del]

text \<open>When every \<open>write\<close> succeeds the file holds the chunks in the order they were written.\<close>

lemma write_all_Some:
  "write_all io chunks written = Some w \<Longrightarrow> w = written @ concat chunks"
proof (induction chunks arbitrary: written)
  case Nil
  then show ?case by simp
next
  case (Cons a chunks)
  then have "write_all io chunks (written @ a) = Some w" by (simp split: if_splits)
  from Cons.IH [OF this] show ?case by simp
qed

lemma write_all_ok:
  "\<forall>k. writeOk io k \<Longrightarrow> write_all io chunks written = Some (written @ concat chunks)"
  by (induction chunks arbitrary: written) simp_all

lemma reloadedField_simps [simp]:
  "reloadedField (Int32Value w) = Int32Value w"
  "reloadedField (MacAddress m) = MacAddress m"
  "reloadedField (EpochValue w) = EpochValue w"
  "reloadedField (BoolValue b) = BoolValue b"
  "reloadedField (FloatValue w) = FloatValue w"
  "reloadedField (StringValue None) = StringValue None"
  "reloadedField (StringValue (Some str)) = (if str = [] then StringValue None else StringValue (Some str))"
  by (simp_all add: reloadedField_def)

text \<open>
  \<open>loadFromFile\<close> reads a field of the type of its column back from the bytes
  \<open>saveToFile\<close> wrote for it, and stops at their end.  The field is the one saved, but for
  the empty string: its length byte is 0, and for that \<open>loadFromFile\<close> stores the null
  pointer.
\<close>

lemma load_field_roundtrip:
  assumes "typedField t f" and "\<forall>k. mallocOk e k"
  shows "\<exists>h'. load_field e t f0 (concat (field_writes t f) @ rest) h
               = (False, reloadedField f, rest, h')"
proof (cases t)
  case IMDB_TYPE_INT32
  then have "f = Int32Value (get_int32Value f)" using assms(1) by (simp add: typedField_def)
  then have "reloadedField f = Int32Value (get_int32Value f)" by (cases f) simp_all
  then show ?thesis using IMDB_TYPE_INT32
    by (simp add: load_field_def field_writes_def read_bytes_append)
next
  case IMDB_TYPE_MAC
  then have "f = MacAddress (get_macAddress f)" using assms(1) by (simp add: typedField_def)
  then have "reloadedField f = MacAddress (get_macAddress f)" by (cases f) simp_all
  then show ?thesis using IMDB_TYPE_MAC
    by (simp add: load_field_def field_writes_def read_bytes_append)
next
  case IMDB_TYPE_STRING
  then have st: "f = StringValue (get_stringValue f)"
    and ok: "case get_stringValue f of None \<Rightarrow> True
              | Some str \<Rightarrow> c_str str = str \<and> length str \<le> IMDB_MAX_STRING_LENGTH"
    using assms(1) by (simp_all add: typedField_def)
  show ?thesis
  proof (cases "get_stringValue f")
    case None
    then have "reloadedField f = StringValue None" using st by (simp add: reloadedField_def)
    then show ?thesis using IMDB_TYPE_STRING None
      by (simp add: load_field_def field_writes_def read_bytes_def)
  next
    case (Some str)
    then have s: "c_str str = str" "length str \<le> 255"
      using ok by (simp_all add: IMDB_MAX_STRING_LENGTH_def)
    have u: "unat (of_nat (length str) :: 8 word) = length str"
      using s(2) by (simp add: unat_of_nat)
    show ?thesis
    proof (cases "str = []")
      case True
      then have "reloadedField f = StringValue None" using st Some by (simp add: reloadedField_def)
      then show ?thesis using IMDB_TYPE_STRING Some True
        by (simp add: load_field_def field_writes_def read_bytes_def strlen_def c_str_def
            IMDB_MAX_STRING_LENGTH_def)
    next
      case False
      then have r: "reloadedField f = StringValue (Some str)"
        using st Some by (simp add: reloadedField_def)
      obtain h1 where m: "malloc e h = (True, h1)" using assms(2) by (simp add: malloc_def)
      have fw: "concat (field_writes IMDB_TYPE_STRING f) = of_nat (length str) # map byte_of_char str"
        using Some False s
        by (simp add: field_writes_def strlen_def IMDB_MAX_STRING_LENGTH_def Let_def)
      have rd: "read_bytes (length str) (map byte_of_char str @ rest) = Some (map byte_of_char str, rest)"
        by (simp add: read_bytes_append)
      have r1: "read_bytes (Suc 0) (of_nat (length str) # map byte_of_char str @ rest)
                 = Some ([of_nat (length str)], map byte_of_char str @ rest)"
        by (simp add: read_bytes_def)
      have "load_field e IMDB_TYPE_STRING f0 (concat (field_writes IMDB_TYPE_STRING f) @ rest) h
              = (False, StringValue (Some str), rest, h1)"
        using False s(2)
        by (simp add: load_field_def fw r1 u IMDB_MAX_STRING_LENGTH_def Let_def m rd)
      then show ?thesis unfolding IMDB_TYPE_STRING r by blast
    qed
  qed
next
  case IMDB_TYPE_EPOCH
  then have "f = EpochValue (get_epochValue f)" using assms(1) by (simp add: typedField_def)
  then have "reloadedField f = EpochValue (get_epochValue f)" by (cases f) simp_all
  then show ?thesis using IMDB_TYPE_EPOCH
    by (simp add: load_field_def field_writes_def read_bytes_append)
next
  case IMDB_TYPE_BOOL
  then have "f = BoolValue (get_boolValue f)" using assms(1) by (simp add: typedField_def)
  then have "reloadedField f = BoolValue (get_boolValue f)" by (cases f) simp_all
  then show ?thesis using IMDB_TYPE_BOOL
    by (simp add: load_field_def field_writes_def read_bytes_def)
next
  case IMDB_TYPE_FLOAT
  then have "f = FloatValue (get_floatValue f)" using assms(1) by (simp add: typedField_def)
  then have "reloadedField f = FloatValue (get_floatValue f)" by (cases f) simp_all
  then show ?thesis using IMDB_TYPE_FLOAT
    by (simp add: load_field_def field_writes_def read_bytes_append)
next
  case (IMDB_TYPE_OUT_OF_RANGE x)
  then show ?thesis using assms(1) by (simp add: typedField_def)
qed

text \<open>The same for the fields of a record, the columns of the schema and the records.\<close>

lemma load_fields_roundtrip:
  assumes "list_all2 typedField (map type cs) vs" and "\<forall>k. mallocOk e k"
    and "j + length cs \<le> length fs0"
  shows "\<exists>h'. load_fields e cs j fs0
                 (concat (concat (map2 field_writes (map type cs) vs)) @ rest) h
               = (False, take j fs0 @ map reloadedField vs @ drop (j + length cs) fs0, rest, h')"
  using assms
proof (induction cs arbitrary: vs j fs0 h)
  case Nil
  then show ?case by simp
next
  case (Cons c cs)
  then obtain v vs' where vs: "vs = v # vs'" and tv: "typedField (type c) v"
    and tvs: "list_all2 typedField (map type cs) vs'"
    by (auto simp add: list_all2_Cons1)
  from load_field_roundtrip [OF tv Cons.prems(2)]
  obtain h1 where lf: "load_field e (type c) (fs0 ! j)
        (concat (field_writes (type c) v) @ (concat (concat (map2 field_writes (map type cs) vs')) @ rest)) h
      = (False, reloadedField v, concat (concat (map2 field_writes (map type cs) vs')) @ rest, h1)"
    by blast
  have j: "j < length fs0" using Cons.prems(3) by simp
  have len: "Suc j + length cs \<le> length (fs0[j := reloadedField v])" using Cons.prems(3) by simp
  from Cons.IH [OF tvs Cons.prems(2) len, of h1]
  obtain h' where ih: "load_fields e cs (Suc j) (fs0[j := reloadedField v])
         (concat (concat (map2 field_writes (map type cs) vs')) @ rest) h1
       = (False, take (Suc j) (fs0[j := reloadedField v]) @ map reloadedField vs'
                 @ drop (Suc j + length cs) (fs0[j := reloadedField v]), rest, h')"
    by blast
  have t: "take (Suc j) (fs0[j := reloadedField v]) = take j fs0 @ [reloadedField v]"
    using j by (simp add: take_Suc_conv_app_nth)
  have d: "drop (Suc j + length cs) (fs0[j := reloadedField v]) = drop (Suc j + length cs) fs0"
    by simp
  show ?case
    unfolding vs using lf ih by (simp add: t d)
qed

lemma load_schema_roundtrip:
  "load_schema (length cs)
     (concat (concat (map (\<lambda>c. [map byte_of_char (name32 (name c)), [byte_of_type (type c)]]) cs)) @ rest)
   = Some (map (\<lambda>c. \<lparr>name = name32 (name c), type = type_of_byte (byte_of_type (type c))\<rparr>) cs, rest)"
proof (induction cs)
  case Nil
  then show ?case by simp
next
  case (Cons c cs)
  have l: "length (map byte_of_char (name32 (name c))) = 32" by (simp add: name32_def)
  define tl where "tl = concat (concat (map (\<lambda>c. [map byte_of_char (name32 (name c)), [byte_of_type (type c)]]) cs)) @ rest"
  have e: "concat (concat (map (\<lambda>c. [map byte_of_char (name32 (name c)), [byte_of_type (type c)]]) (c # cs))) @ rest
            = map byte_of_char (name32 (name c)) @ (byte_of_type (type c) # tl)"
    by (simp add: tl_def)
  have r1: "read_bytes (Suc 0) (byte_of_type (type c) # tl) = Some ([byte_of_type (type c)], tl)"
    by (simp add: read_bytes_def)
  have ih: "load_schema (length cs) tl
     = Some (map (\<lambda>c. \<lparr>name = name32 (name c), type = type_of_byte (byte_of_type (type c))\<rparr>) cs, rest)"
    using Cons.IH by (simp add: tl_def)
  have "load_schema (Suc (length cs)) (map byte_of_char (name32 (name c)) @ (byte_of_type (type c) # tl))
      = Some (\<lparr>name = name32 (name c), type = type_of_byte (byte_of_type (type c))\<rparr>
                # map (\<lambda>c. \<lparr>name = name32 (name c), type = type_of_byte (byte_of_type (type c))\<rparr>) cs, rest)"
    by (simp add: read_bytes_append [OF l] r1 ih)
  then show ?case unfolding e by simp
qed

lemma record_writes_typed:
  assumes "rfields r = Some fs" and "length fs = unat (columnCount s0)"
    and "length (schema s0) = unat (columnCount s0)"
  shows "concat (record_writes s0 r)
           = (if isValid r then 1 else 0) # bytes_of_u32 (expiryMillis r)
             @ concat (concat (map2 field_writes (map type (schema s0)) fs))"
proof -
  have "map (\<lambda>j. field_writes (columnType s0 j) (getField r j)) [0..<unat (columnCount s0)]
          = map2 field_writes (map type (schema s0)) fs"
    by (rule nth_equalityI)
       (simp_all add: assms columnType_def getField_def fieldAt_def)
  then show ?thesis by (simp add: record_writes_def)
qed

lemma schema_records_update [simp]:
  "schema (t\<lparr>records := rs, recordCount := n, heap := h\<rparr>) = schema t"
  by (simp add: schema_def split: option.splits)

lemma load_records_roundtrip:
  assumes ok: "\<forall>k. mallocOk e k" "\<forall>k. IMDB_MIN_HEAP_BYTES \<le> getFreeHeap e k"
    and len: "length (schema s0) = unat (columnCount s0)"
    and ty: "map type (schema t) = map type (schema s0)"
    and room: "recordCount t + length rs \<le> length (records t)"
    and rs: "\<forall>r \<in> set rs. \<exists>fs. rfields r = Some fs \<and> list_all2 typedField (map type (schema s0)) fs"
  shows "\<exists>t'. load_records e S (length rs) (concat (map (\<lambda>r. concat (record_writes s0 r)) rs) @ rest) t
                 = (IMDB_OK, t')
            \<and> stored t' = stored t @ map (reloadedRecord S (millis e)) rs
            \<and> recordCount t' = recordCount t + length rs
            \<and> columns t' = columns t \<and> columnCount t' = columnCount t
            \<and> tableExists t' = tableExists t
            \<and> recordCapacity t' = recordCapacity t \<and> length (records t') = length (records t)"
  using ty room rs
proof (induction rs arbitrary: t)
  case Nil
  then show ?case by simp
next
  case (Cons r rs)
  from Cons.prems(3) obtain fs where fs: "rfields r = Some fs"
    and tf: "list_all2 typedField (map type (schema s0)) fs"
    by auto
  have lfs: "length fs = unat (columnCount s0)"
    using tf len by (auto dest: list_all2_lengthD)
  define X where "X = concat (map (\<lambda>r. concat (record_writes s0 r)) rs) @ rest"
  define fb where "fb = concat (concat (map2 field_writes (map type (schema t)) fs))"
  have bytes: "concat (map (\<lambda>r. concat (record_writes s0 r)) (r # rs)) @ rest
        = (if isValid r then 1 else 0) # (bytes_of_u32 (expiryMillis r) @ (fb @ X))"
    by (simp add: record_writes_typed [OF fs lfs len] X_def fb_def Cons.prems(1))
  have r1: "read_bytes (Suc 0) ((if isValid r then 1 else 0) # (bytes_of_u32 (expiryMillis r) @ (fb @ X)))
             = Some ([if isValid r then 1 else 0], bytes_of_u32 (expiryMillis r) @ (fb @ X))"
    by (simp add: read_bytes_def)
  have r4: "read_bytes 4 (bytes_of_u32 (expiryMillis r) @ (fb @ X))
             = Some (bytes_of_u32 (expiryMillis r), fb @ X)"
    by (simp add: read_bytes_append)
  have chk: "checkHeapLimit e (heap t)" using ok(2) by (simp add: checkHeapLimit_def)
  obtain h1 where m: "malloc e (heap t) = (True, h1)" using ok(1) by (simp add: malloc_def)
  define fs0 where "fs0 = map (\<lambda>c. if type c = IMDB_TYPE_STRING then StringValue None
                                            else uninitField e) (schema t)"
  have tf': "list_all2 typedField (map type (schema t)) fs" using tf Cons.prems(1) by simp
  have l0: "0 + length (schema t) \<le> length fs0" by (simp add: fs0_def)
  from load_fields_roundtrip [OF tf' ok(1) l0, of X h1]
  obtain h2 where lf: "load_fields e (schema t) 0 fs0 (fb @ X) h1
                         = (False, map reloadedField fs, X, h2)"
    by (auto simp add: fb_def fs0_def)
  define rec where "rec = \<lparr>rfields = Some (map reloadedField fs),
       expiryMillis = (if expiryMillis r = 0 then 0 else millis e + (expiryMillis r - S)),
       isValid = isValid r\<rparr>"
  have rec: "rec = reloadedRecord S (millis e) r"
    by (simp add: rec_def reloadedRecord_def fs)
  define t1 where "t1 = t\<lparr>records := (records t)[recordCount t := rec],
                            recordCount := recordCount t + 1, heap := h2\<rparr>"
  have step: "load_records e S (Suc (length rs))
                ((if isValid r then 1 else 0) # (bytes_of_u32 (expiryMillis r) @ (fb @ X))) t
              = load_records e S (length rs) X t1"
    using chk
    by (simp add: r1 r4 m lf Let_def t1_def rec_def flip: fs0_def)
  have ty1: "map type (schema t1) = map type (schema s0)"
    using Cons.prems(1) by (simp add: t1_def)
  have room1: "recordCount t1 + length rs \<le> length (records t1)"
    using Cons.prems(2) by (simp add: t1_def)
  have rs1: "\<forall>r \<in> set rs. \<exists>fs. rfields r = Some fs \<and> list_all2 typedField (map type (schema s0)) fs"
    using Cons.prems(3) by simp
  from Cons.IH [OF ty1 room1 rs1]
  obtain t' where ih: "load_records e S (length rs) X t1 = (IMDB_OK, t')"
    and k: "stored t' = stored t1 @ map (reloadedRecord S (millis e)) rs"
      "recordCount t' = recordCount t1 + length rs"
      "columns t' = columns t1" "columnCount t' = columnCount t1"
      "tableExists t' = tableExists t1"
      "recordCapacity t' = recordCapacity t1" "length (records t') = length (records t1)"
    unfolding X_def by blast
  have n: "recordCount t < length (records t)" using Cons.prems(2) by simp
  have st1: "stored t1 = stored t @ [rec]"
    using n by (simp add: t1_def stored_def take_Suc_conv_app_nth)
  have "load_records e S (length (r # rs)) (concat (map (\<lambda>r. concat (record_writes s0 r)) (r # rs)) @ rest) t
          = (IMDB_OK, t')"
    unfolding bytes using step ih by simp
  moreover have "stored t' = stored t @ map (reloadedRecord S (millis e)) (r # rs)"
    using k(1) st1 rec by simp
  moreover have "recordCount t' = recordCount t + length (r # rs)"
    using k(2) by (simp add: t1_def)
  moreover have "columns t' = columns t" "columnCount t' = columnCount t"
    "tableExists t' = tableExists t" "recordCapacity t' = recordCapacity t"
    "length (records t') = length (records t)"
    using k(3-7) by (simp_all add: t1_def)
  ultimately show ?case by blast
qed

lemma unat_of_nat_16: "n \<le> 65535 \<Longrightarrow> unat (of_nat n :: 16 word) = n"
  by (simp add: unat_of_nat)

lemma loadFromFile_roundtrip:
  assumes ok: "\<forall>k. mallocOk e k" "\<forall>k. IMDB_MIN_HEAP_BYTES \<le> getFreeHeap e k"
    and len: "length (schema s0) = unat (columnCount s0)"
    and n: "recordCount s0 = length rs" "length rs \<le> 65535"
    and vt: "\<forall>c \<in> set (schema s0). validType (type c)"
    and rs: "\<forall>r \<in> set rs. \<exists>fs. rfields r = Some fs \<and> list_all2 typedField (map type (schema s0)) fs"
    and fl: "files io (c_str fname)
                 = Some (concat (header_writes S s0 @ schema_writes s0 @ concat (map (record_writes s0) rs)))"
      "openOk io (c_str fname)"
    and fresh: "\<not> tableExists t"
  shows "\<exists>t'. loadFromFile e (Some fname) io t = (IMDB_OK, t')
            \<and> tableExists t'
            \<and> schema t' = map (\<lambda>c. \<lparr>name = name32 (name c), type = type c\<rparr>) (schema s0)
            \<and> columnCount t' = columnCount s0
            \<and> recordCount t' = length rs
            \<and> stored t' = map (reloadedRecord S (millis e)) rs
            \<and> recordCapacity t' = max 10 (length rs)
            \<and> length (records t') = recordCapacity t'"
proof -
  define R where "R = concat (map (\<lambda>r. concat (record_writes s0 r)) rs) @ []"
  define SB where "SB = concat (concat (map (\<lambda>c. [map byte_of_char (name32 (name c)), [byte_of_type (type c)]])
                                  (schema s0))) @ R"
  define cs' where "cs' = map (\<lambda>c. \<lparr>name = name32 (name c), type = type c\<rparr>) (schema s0)"
  have cr: "concat (concat (map (record_writes s0) rs)) = concat (map (\<lambda>r. concat (record_writes s0 r)) rs)"
    by (induction rs) simp_all
  have bytes: "concat (header_writes S s0 @ schema_writes s0 @ concat (map (record_writes s0) rs))
        = map byte_of_char ''IMDB'' @ (1 # columnCount s0 #
            (bytes_of_u16 (of_nat (length rs)) @ (bytes_of_u32 S @ SB)))"
    by (simp add: header_writes_def schema_writes_def SB_def R_def cr n(1))
  have r4: "read_bytes 4 (a # b # c # d # xs) = Some ([a, b, c, d], xs)"
    for a b c d :: uint8_t and xs
    by (simp add: read_bytes_def)
  have r1: "read_bytes (Suc 0) (x # xs) = Some ([x], xs)" for x :: uint8_t and xs
    by (simp add: read_bytes_def)
  have r2: "read_bytes 2 (bytes_of_u16 (of_nat (length rs)) @ (bytes_of_u32 S @ SB))
         = Some (bytes_of_u16 (of_nat (length rs)), bytes_of_u32 S @ SB)"
    by (rule read_bytes_append) simp
  have r5: "read_bytes 4 (bytes_of_u32 S @ SB) = Some (bytes_of_u32 S, SB)"
    by (rule read_bytes_append) simp
  have f2: "files io (c_str fname) = Some (map byte_of_char ''IMDB'' @ (1 # columnCount s0 #
            (bytes_of_u16 (of_nat (length rs)) @ (bytes_of_u32 S @ SB))))"
    using fl(1) by (simp only: bytes)
  have hd: "loadFromFile e (Some fname) io t
          = load_body e (columnCount s0) (of_nat (length rs)) S SB t"
    using fresh fl(2)
    by (simp add: loadFromFile_def f2 r4 r1 r2 r5)
  have chk: "checkHeapLimit e h" for h using ok(2) by (simp add: checkHeapLimit_def)
  obtain h1 where m1: "malloc e (heap t) = (True, h1)" using ok(1) by (simp add: malloc_def)
  obtain h2 where m2: "malloc e h1 = (True, h2)" using ok(1) by (simp add: malloc_def)
  have tb: "map (\<lambda>c. \<lparr>name = name32 (name c), type = type_of_byte (byte_of_type (type c))\<rparr>) (schema s0) = cs'"
    unfolding cs'_def using vt by (simp add: type_of_byte_of_type)
  have ls: "load_schema (unat (columnCount s0)) SB = Some (cs', R)"
    using load_schema_roundtrip [of "schema s0" R] by (simp add: SB_def len tb)
  define cap where "cap = (if length rs > 10 then length rs else 10)"
  define t3 where "t3 = t\<lparr>columns := Some cs', columnCount := columnCount s0, tableExists := True,
                             recordCapacity := cap, records := replicate cap (uninitRecord e),
                             recordCount := 0, heap := h2\<rparr>"
  have lb: "load_body e (columnCount s0) (of_nat (length rs)) S SB t
              = load_records e S (length rs) R t3"
    by (simp add: load_body_def chk m1 m2 ls Let_def unat_of_nat_16 [OF n(2)] t3_def cap_def)
  have lcs: "length cs' = unat (columnCount s0)" by (simp add: cs'_def len)
  have "schema t3 = take (unat (columnCount s0)) cs'" by (simp add: schema_def t3_def)
  then have sc3: "schema t3 = cs'" using lcs by simp
  have ty3: "map type (schema t3) = map type (schema s0)"
    by (simp add: sc3 cs'_def comp_def)
  have room: "recordCount t3 + length rs \<le> length (records t3)"
    by (simp add: t3_def cap_def)
  from load_records_roundtrip [OF ok len ty3 room rs, of S "[]"]
  obtain t' where lr: "load_records e S (length rs) R t3 = (IMDB_OK, t')"
    and k: "stored t' = stored t3 @ map (reloadedRecord S (millis e)) rs"
      "recordCount t' = recordCount t3 + length rs"
      "columns t' = columns t3" "columnCount t' = columnCount t3"
      "tableExists t' = tableExists t3"
      "recordCapacity t' = recordCapacity t3" "length (records t') = length (records t3)"
    unfolding R_def by blast
  have "loadFromFile e (Some fname) io t = (IMDB_OK, t')" using hd lb lr by simp
  moreover have "tableExists t'" using k(5) by (simp add: t3_def)
  moreover have "schema t' = cs'"
  proof -
    have "schema t' = schema t3" by (simp only: schema_def k(3) k(4))
    then show ?thesis using sc3 by simp
  qed
  moreover have "columnCount t' = columnCount s0" using k(4) by (simp add: t3_def)
  moreover have "recordCount t' = length rs" using k(2) by (simp add: t3_def)
  moreover have "stored t' = map (reloadedRecord S (millis e)) rs"
    using k(1) by (simp add: t3_def stored_def)
  moreover have "recordCapacity t' = max 10 (length rs)"
    using k(6) by (simp add: t3_def cap_def max_def)
  moreover have "length (records t') = recordCapacity t'"
    using k(6,7) by (simp add: t3_def)
  ultimately show ?thesis unfolding cs'_def by blast
qed

text \<open>
  \<open>saveToFile\<close> on a store whose records are all valid and not expired at any reading of
  the clock: nothing is purged, and when the file system plays along the file holds
  the header, the schema and the records.
\<close>

lemma saveToFile_purge_none:
  assumes "\<forall>r \<in> set rs. isValid r \<longrightarrow> (\<forall>k. \<not> fst (isRecordExpired_at clock k (expiryMillis r)))"
  shows "saveToFile_purge clock s rs k h
           = (rs, k + length (filter (\<lambda>r. isValid r \<and> expiryMillis r \<noteq> 0) rs), h)"
  using assms
proof (induction rs arbitrary: k)
  case Nil
  then show ?case by simp
next
  case (Cons r rs)
  have ih: "saveToFile_purge clock s rs j h
           = (rs, j + length (filter (\<lambda>r. isValid r \<and> expiryMillis r \<noteq> 0) rs), h)" for j
    using Cons.IH [of j] Cons.prems by simp
  show ?case
  proof (cases "isValid r")
    case False
    then show ?thesis by (simp add: ih)
  next
    case True
    then have ne: "\<not> fst (isRecordExpired_at clock k (expiryMillis r))" using Cons.prems by simp
    obtain ex k1 where x: "isRecordExpired_at clock k (expiryMillis r) = (ex, k1)"
      by (cases "isRecordExpired_at clock k (expiryMillis r)")
    have k1: "k1 = (if expiryMillis r = 0 then k else k + 1)" and ex: "\<not> ex"
      using x ne by (auto simp add: isRecordExpired_at_def Let_def split: if_splits)
    show ?thesis using True by (simp add: x ex ih k1)
  qed
qed

lemma compactRecords_keeps:
  "columns (compactRecords s) = columns s"
  "columnCount (compactRecords s) = columnCount s"
  "tableExists (compactRecords s) = tableExists s"
  "heap (compactRecords s) = heap s"
  "recordCapacity (compactRecords s) = recordCapacity s"
  by (simp_all add: compactRecords_def split: prod.splits)

lemma writes_cong:
  assumes "schema s1 = schema s" and "columnCount s1 = columnCount s" and "recordCount s1 = recordCount s"
  shows "header_writes S s1 = header_writes S s"
    and "schema_writes s1 = schema_writes s"
    and "record_writes s1 = record_writes s"
proof -
  show "header_writes S s1 = header_writes S s" by (simp add: header_writes_def assms)
  show "schema_writes s1 = schema_writes s" by (simp add: schema_writes_def assms)
  show "record_writes s1 = record_writes s"
    by (rule ext) (simp add: record_writes_def assms columnType_def)
qed

lemma saveToFile_ok:
  assumes te: "tableExists s"
    and rc: "recordCount s \<le> length (records s)" "recordCount s \<le> 65535"
    and lv: "\<forall>r \<in> set (stored s). isValid r \<and> (\<forall>k. \<not> fst (isRecordExpired_at clock k (expiryMillis r)))"
    and dev: "openOk io (tempFilename fname)" "\<forall>k. writeOk io k" "renameOk io"
      "tempFilename fname \<noteq> c_str fname"
  shows "\<exists>s1 io1. saveToFile clock (Some fname) io s = (IMDB_OK, s1, io1)
           \<and> stored s1 = stored s \<and> recordCount s1 = recordCount s
           \<and> columns s1 = columns s \<and> columnCount s1 = columnCount s
           \<and> tableExists s1 \<and> heap s1 = heap s
           \<and> openOk io1 = openOk io
           \<and> files io1 (c_str fname)
               = Some (concat (header_writes (clock (length (filter (\<lambda>r. expiryMillis r \<noteq> 0) (stored s)))) s
                               @ schema_writes s @ concat (map (record_writes s) (stored s))))"
proof -
  define k where "k = length (filter (\<lambda>r. expiryMillis r \<noteq> 0) (stored s))"
  have av: "filter isValid (stored s) = stored s" using lv by (simp add: filter_id_conv)
  have fk: "filter (\<lambda>r. isValid r \<and> expiryMillis r \<noteq> 0) (stored s)
              = filter (\<lambda>r. expiryMillis r \<noteq> 0) (stored s)"
    using lv by (auto intro: filter_cong)
  have pg: "saveToFile_purge clock s (stored s) 0 (heap s) = (stored s, k, heap s)"
    using saveToFile_purge_none [of "stored s" clock s 0 "heap s"] lv by (simp add: fk k_def)
  have same: "s\<lparr>records := stored s @ spare s, heap := heap s\<rparr> = s"
    by (simp add: stored_spare)
  define s1 where "s1 = compactRecords s"
  note c = compactRecords_stored [OF rc(1), folded s1_def] compactRecords_keeps [of s, folded s1_def]
  have st1: "stored s1 = stored s" using c(1) av by simp
  have rc1: "recordCount s1 = recordCount s" using c(2) av rc(1) by (simp add: stored_def)
  have sc1: "schema s1 = schema s" by (simp only: schema_def c(4) c(5))
  note w = writes_cong [OF sc1 c(5) rc1]
  define content where "content = concat (header_writes (clock k) s @ schema_writes s
                               @ concat (map (record_writes s) (stored s)))"
  have wa: "write_all io (header_writes (clock k) s1 @ schema_writes s1
                              @ concat (map (record_writes s1) (stored s1))) [] = Some content"
    using write_all_ok [OF dev(2), of _ "[]"] by (simp add: w st1 content_def)
  define io1 where "io1 = io\<lparr>files := (files io)(tempFilename fname := None, c_str fname := Some content)\<rparr>"
  have "saveToFile clock (Some fname) io s = (IMDB_OK, s1, io1)"
    using te rc(2) dev(1,3,4)
    by (simp add: saveToFile_def pg same Let_def rc1 wa io1_def flip: s1_def)
  moreover have "files io1 (c_str fname) = Some content" by (simp add: io1_def)
  moreover have "openOk io1 = openOk io" by (simp add: io1_def)
  moreover have "tableExists s1" using c(6) te by simp
  ultimately show ?thesis
    using st1 rc1 c(4,5,7) unfolding content_def k_def by blast
qed

text \<open>
  A query returns for the reloaded field what it returns for the saved one, a null
  string being read as the empty string by \<open>getFieldValue\<close>; a comparison does not, see
  below.  A record that has not expired when the file is stamped is live at the time of
  the load.
\<close>

lemma reloaded_field_reads_the_same:
  "getFieldValue (reloadedField f) ty c = getFieldValue f ty c"
  by (cases f) (auto simp add: reloadedField_def getFieldValue_def c_str_def Let_def
        split: IMDBDataType.splits option.splits)

lemma reloaded_record_is_live:
  assumes "isValid r" and "\<not> fst (isRecordExpired_at clock k (expiryMillis r))"
  shows "live e (reloadedRecord (clock k) (millis e) r)"
proof (cases "expiryMillis r = 0")
  case True
  then show ?thesis using assms(1) by (simp add: live_def reloadedRecord_def isRecordExpired_def)
next
  case False
  then have n: "\<not> 0 \<le> sint (clock k - expiryMillis r)"
    using assms(2) by (simp add: isRecordExpired_at_def Let_def)
  have "millis e - (millis e + (expiryMillis r - clock k)) = clock k - expiryMillis r" by simp
  then show ?thesis
    using assms(1) False n by (simp add: live_def reloadedRecord_def isRecordExpired_def Let_def)
qed

text \<open>
  Saving a store built by inserts, on which nothing is deleted and nothing expires, and
  loading the file into a new store: both calls return \<open>IMDB_OK\<close>, and the new store has
  the schema, as many records, all of them live, and in every record the fields that
  were saved, but for the empty strings, which are null pointers now.
\<close>

lemma saved_store_is_reloaded:
  assumes te: "tableExists s" and cols: "length (schema s) = unat (columnCount s)"
    and vt: "\<forall>c \<in> set (schema s). validType (type c)"
    and rc: "recordCount s \<le> length (records s)" "recordCount s \<le> 65535"
    and recs: "\<forall>r \<in> set (stored s). isValid r
                 \<and> (\<forall>k. \<not> fst (isRecordExpired_at clock k (expiryMillis r)))
                 \<and> (\<exists>fs. rfields r = Some fs \<and> list_all2 typedField (map type (schema s)) fs)"
    and dev: "openOk io (tempFilename fname)" "openOk io (c_str fname)" "\<forall>k. writeOk io k"
      "renameOk io" "tempFilename fname \<noteq> c_str fname"
    and e: "\<forall>k. mallocOk e k" "\<forall>k. IMDB_MIN_HEAP_BYTES \<le> getFreeHeap e k"
    and fresh: "\<not> tableExists t"
    and io1: "io1 = snd (snd (saveToFile clock (Some fname) io s))"
    and t': "t' = snd (loadFromFile e (Some fname) io1 t)"
    and S: "S = clock (length (filter (\<lambda>r. expiryMillis r \<noteq> 0) (stored s)))"
  shows "fst (saveToFile clock (Some fname) io s) = IMDB_OK"
    and "stored (fst (snd (saveToFile clock (Some fname) io s))) = stored s"
    and "fst (loadFromFile e (Some fname) io1 t) = IMDB_OK"
    and "tableExists t'" and "columnCount t' = columnCount s"
    and "schema t' = map (\<lambda>c. \<lparr>name = name32 (name c), type = type c\<rparr>) (schema s)"
    and "recordCount t' = recordCount s"
    and "stored t' = map (reloadedRecord S (millis e)) (stored s)"
    and "count e t' = of_nat (recordCount s)"
proof -
  have lv: "\<forall>r \<in> set (stored s). isValid r \<and> (\<forall>k. \<not> fst (isRecordExpired_at clock k (expiryMillis r)))"
    using recs by blast
  from saveToFile_ok [OF te rc lv dev(1,3,4,5)]
  obtain s1 io2 where sv: "saveToFile clock (Some fname) io s = (IMDB_OK, s1, io2)"
    and k: "stored s1 = stored s" "openOk io2 = openOk io"
      "files io2 (c_str fname)
         = Some (concat (header_writes S s @ schema_writes s @ concat (map (record_writes s) (stored s))))"
    unfolding S by blast
  have io: "io1 = io2" using sv io1 by simp
  have n: "recordCount s = length (stored s)" "length (stored s) \<le> 65535"
    using rc by (simp_all add: stored_def)
  have ty: "\<forall>r \<in> set (stored s). \<exists>fs. rfields r = Some fs \<and> list_all2 typedField (map type (schema s)) fs"
    using recs by blast
  have op: "openOk io2 (c_str fname)" using k(2) dev(2) by simp
  from loadFromFile_roundtrip [OF e cols n vt ty k(3) op fresh]
  obtain t2 where ld: "loadFromFile e (Some fname) io2 t = (IMDB_OK, t2)"
    and l: "tableExists t2" "schema t2 = map (\<lambda>c. \<lparr>name = name32 (name c), type = type c\<rparr>) (schema s)"
      "columnCount t2 = columnCount s" "recordCount t2 = length (stored s)"
      "stored t2 = map (reloadedRecord S (millis e)) (stored s)"
    by blast
  have t2: "t' = t2" using ld t' io by simp
  show "fst (saveToFile clock (Some fname) io s) = IMDB_OK" using sv by simp
  show "stored (fst (snd (saveToFile clock (Some fname) io s))) = stored s" using sv k(1) by simp
  show "fst (loadFromFile e (Some fname) io1 t) = IMDB_OK" using ld io by simp
  show "tableExists t'" using l(1) t2 by simp
  show "columnCount t' = columnCount s" using l(3) t2 by simp
  show "schema t' = map (\<lambda>c. \<lparr>name = name32 (name c), type = type c\<rparr>) (schema s)" using l(2) t2 by simp
  show "recordCount t' = recordCount s" using l(4) t2 n(1) by simp
  show "stored t' = map (reloadedRecord S (millis e)) (stored s)" using l(5) t2 by simp
  have "\<forall>r \<in> set (stored s). live e (reloadedRecord S (millis e) r)"
    unfolding S using recs reloaded_record_is_live by blast
  then have "filter (live e) (map (reloadedRecord S (millis e)) (stored s))
               = map (reloadedRecord S (millis e)) (stored s)"
    by (simp add: filter_id_conv)
  then show "count e t' = of_nat (recordCount s)"
    using l(1,5) t2 n(1) by (simp add: count_def count_loop_filter)
qed

lemma demo_table_eq:
  "createTable demo_env (Some (\<lambda>i. demo_schema ! i)) 3 newESP32IMDB
     = (IMDB_OK,
        \<lparr>columns = Some demo_schema, columnCount = 3,
         records = replicate 10 (uninitRecord demo_env), recordCount = 0, recordCapacity = 10,
         tableExists = True, heap = \<lparr>mallocCalls = 2, liveBlocks = 2\<rparr>\<rparr>)"
proof -
  have env: "mallocOk demo_env = (\<lambda>k. True)" "getFreeHeap demo_env = (\<lambda>k. 100000)"
    by (simp_all add: demo_env_def)
  have l: "length demo_schema = 3" by (simp add: demo_schema_def)
  have u: "map (\<lambda>i. demo_schema ! i) [0..<3] = demo_schema"
    using map_nth [of demo_schema] by (simp only: l)
  show ?thesis
    by (simp add: createTable_def newESP32IMDB_def checkHeapLimit_def env IMDB_MIN_HEAP_BYTES_def
        malloc_def u)
qed

lemma demo_saved_eq:
  "insert_imdb demo_env
     (Some (\<lambda>i. [Some (Int32Value 1), Some (StringValue (Some '''')), Some (EpochValue 7)] ! i)) 0 demo_table
   = (IMDB_OK,
      \<lparr>columns = Some demo_schema, columnCount = 3,
       records = demo_record 1 '''' 7 0 # replicate 9 (uninitRecord demo_env),
       recordCount = 1, recordCapacity = 10,
       tableExists = True, heap = \<lparr>mallocCalls = 4, liveBlocks = 4\<rparr>\<rparr>)"
proof -
  define vals :: "nat \<Rightarrow> IMDBFieldValue option"
    where "vals = (\<lambda>i. [Some (Int32Value 1), Some (StringValue (Some '''')), Some (EpochValue 7)] ! i)"
  have env: "mallocOk demo_env = (\<lambda>k. True)" "getFreeHeap demo_env = (\<lambda>k. 100000)"
    by (simp_all add: demo_env_def)
  define tb where "tb = \<lparr>columns = Some demo_schema, columnCount = 3,
         records = replicate 10 (uninitRecord demo_env), recordCount = 0, recordCapacity = 10,
         tableExists = True, heap = \<lparr>mallocCalls = 2, liveBlocks = 2\<rparr>\<rparr>"
  have dt: "demo_table = tb" by (simp add: demo_table_def demo_table_eq tb_def)
  have sc: "schema tb = demo_schema" by (simp add: schema_def tb_def demo_schema_def)
  have il: "insert_loop demo_env demo_schema vals demo_schema 0
                (map (\<lambda>c. zeroValue (type c)) demo_schema) \<lparr>mallocCalls = 3, liveBlocks = 3\<rparr>
              = (IMDB_OK, [Int32Value 1, StringValue (Some ''''), EpochValue 7],
                 \<lparr>mallocCalls = 4, liveBlocks = 4\<rparr>)"
    by (simp add: demo_schema_def vals_def copyFieldValue_def malloc_def env
          strlen_def c_str_def IMDB_MAX_STRING_LENGTH_def)
  have d: "tableExists tb" "recordCount tb = 0" "recordCapacity tb = 10"
    "heap tb = \<lparr>mallocCalls = 2, liveBlocks = 2\<rparr>"
    "records tb = replicate 10 (uninitRecord demo_env)"
    by (simp_all add: tb_def)
  have rp: "(replicate 10 u)[0 := y] = y # replicate 9 u" for u y :: IMDBRecord
    by (simp add: numeral_eq_Suc)
  have "insert_imdb demo_env (Some vals) 0 tb
   = (IMDB_OK,
      \<lparr>columns = Some demo_schema, columnCount = 3,
       records = demo_record 1 '''' 7 0 # replicate 9 (uninitRecord demo_env),
       recordCount = 1, recordCapacity = 10,
       tableExists = True, heap = \<lparr>mallocCalls = 4, liveBlocks = 4\<rparr>\<rparr>)"
    by (simp add: insert_imdb_def sc d checkHeapLimit_def env IMDB_MIN_HEAP_BYTES_def
        IMDB_MAX_TTL_MS_def malloc_def il demo_record_def rp)
       (simp add: tb_def)
  then show ?thesis unfolding dt vals_def .
qed

text \<open>
  C3.  An empty string does not survive the round trip.  \<open>insert\<close> stores the empty string
  as a pointer to a buffer that holds it (\<open>copyFieldValue\<close> never stores a null
  pointer); \<open>saveToFile\<close> writes the length byte 0 for it, and \<open>loadFromFile\<close> stores the
  null pointer when it reads the length byte 0.  In the example, \<open>createTable\<close>,
  \<open>insert\<close> of \<open>(1, "", 7)\<close>, \<open>saveToFile\<close> and \<open>loadFromFile\<close> into a new store all
  return \<open>IMDB_OK\<close> and the record count is 1 before and after, but the field \<open>name\<close> of
  the reloaded record is not the one that was saved: \<open>countWhere("name", "")\<close> is 1 on
  the store that was saved and 0 on the store that was loaded, since \<open>compareValues\<close>
  matches no null string.
\<close>

theorem empty_string_is_reloaded_as_null:
  "fst (createTable demo_env (Some (\<lambda>i. demo_schema ! i)) 3 newESP32IMDB) = IMDB_OK
   \<and> fst (insert_imdb demo_env
            (Some (\<lambda>i. [Some (Int32Value 1), Some (StringValue (Some '''')), Some (EpochValue 7)] ! i))
            0 demo_table) = IMDB_OK
   \<and> fst (saveToFile (steady demo_env) (Some ''/db'') demo_fs demo_saved) = IMDB_OK
   \<and> fst (loadFromFile demo_env (Some ''/db'')
            (snd (snd (saveToFile (steady demo_env) (Some ''/db'') demo_fs demo_saved)))
            newESP32IMDB) = IMDB_OK
   \<and> stored demo_saved = [demo_record 1 '''' 7 0]
   \<and> stored demo_loaded
       = [(demo_record 1 '''' 7 0)\<lparr>rfields := Some [Int32Value 1, StringValue None, EpochValue 7]\<rparr>]
   \<and> count demo_env demo_saved = 1 \<and> count demo_env demo_loaded = 1
   \<and> countWhere demo_env (Some ''name'') (Some (StringValue (Some ''''))) demo_saved = 1
   \<and> countWhere demo_env (Some ''name'') (Some (StringValue (Some ''''))) demo_loaded = 0"
proof -
  define sv where "sv = \<lparr>columns = Some demo_schema, columnCount = 3,
       records = demo_record 1 '''' 7 0 # replicate 9 (uninitRecord demo_env),
       recordCount = 1, recordCapacity = 10,
       tableExists = True, heap = \<lparr>mallocCalls = 4, liveBlocks = 4\<rparr>\<rparr>"
  have ds: "demo_saved = sv" by (simp add: demo_saved_def demo_saved_eq sv_def)
  have te: "tableExists sv" and cc: "columnCount sv = 3" by (simp_all add: sv_def)
  have sc: "schema sv = demo_schema" by (simp add: schema_def sv_def demo_schema_def)
  have st: "stored sv = [demo_record 1 '''' 7 0]" by (simp add: stored_def sv_def)
  have cols: "length (schema sv) = unat (columnCount sv)" by (simp add: sc cc demo_schema_def)
  have vt: "\<forall>c \<in> set (schema sv). validType (type c)"
    by (simp add: sc demo_schema_def validType_def)
  have rc: "recordCount sv \<le> length (records sv)" "recordCount sv \<le> 65535" by (simp_all add: sv_def)
  have recs: "\<forall>r \<in> set (stored sv). isValid r
                 \<and> (\<forall>k. \<not> fst (isRecordExpired_at (steady demo_env) k (expiryMillis r)))
                 \<and> (\<exists>fs. rfields r = Some fs \<and> list_all2 typedField (map type (schema sv)) fs)"
    by (simp add: st sc demo_record_def isRecordExpired_at_def demo_schema_def typedField_def
        c_str_def)
  have dev: "openOk demo_fs (tempFilename ''/db'')" "openOk demo_fs (c_str ''/db'')"
    "\<forall>k. writeOk demo_fs k" "renameOk demo_fs" "tempFilename ''/db'' \<noteq> c_str ''/db''"
    by (simp_all add: demo_fs_def tempFilename_def c_str_def)
  have e: "\<forall>k. mallocOk demo_env k" "\<forall>k. IMDB_MIN_HEAP_BYTES \<le> getFreeHeap demo_env k"
    by (simp_all add: demo_env_def IMDB_MIN_HEAP_BYTES_def)
  have fresh: "\<not> tableExists newESP32IMDB" by (simp add: newESP32IMDB_def)
  have dl: "demo_loaded = snd (loadFromFile demo_env (Some ''/db'')
            (snd (snd (saveToFile (steady demo_env) (Some ''/db'') demo_fs sv))) newESP32IMDB)"
    by (simp add: demo_loaded_def ds)
  note r = saved_store_is_reloaded [OF te cols vt rc recs dev e fresh refl dl refl]
  have ld: "stored demo_loaded
       = [(demo_record 1 '''' 7 0)\<lparr>rfields := Some [Int32Value 1, StringValue None, EpochValue 7]\<rparr>]"
    by (simp add: r(8) st reloadedRecord_def demo_record_def)
  have ex: "isRecordExpired demo_env 0 = False" by (simp add: isRecordExpired_def)
  have c1: "count demo_env sv = 1"
    by (simp add: count_def te st demo_record_def ex)
  have c2: "count demo_env demo_loaded = 1"
    by (simp add: count_def r(4) ld demo_record_def ex)
  have f1: "findColumnIndex sv ''name'' = 1"
    by (simp add: findColumnIndex_def sc demo_schema_def strcmp_eq_def c_str_def)
  have f2: "findColumnIndex demo_loaded ''name'' = 1"
    by (simp add: findColumnIndex_def r(6) sc demo_schema_def strcmp_eq_def c_str_def name32_def)
  have w1: "countWhere demo_env (Some ''name'') (Some (StringValue (Some ''''))) sv = 1"
    by (simp add: countWhere_def te f1 st demo_record_def ex matches_def columnType_def sc
        demo_schema_def fieldAt_def strcmp_eq_def)
  have w2: "countWhere demo_env (Some ''name'') (Some (StringValue (Some ''''))) demo_loaded = 0"
    by (simp add: countWhere_def r(4) f2 ld demo_record_def ex matches_def columnType_def r(6) sc
        demo_schema_def fieldAt_def strcmp_eq_def)
  show ?thesis
    using r(1,3) c1 c2 w1 w2
    by (simp add: demo_table_eq demo_saved_eq ds st ld)
qed

end
